theory Spec2Isabelle
  imports Main "HOL-Library.AList"
begin

section \<open>JavaScript strings and arrays\<close>

text \<open>
  A JavaScript string is modelled as a \<open>string\<close> (a list of 8-bit characters standing for
  its code units, the range U+0000 to U+00FF). Case mapping and white space are modelled
  on that range: \<open>toLowerCase\<close> maps the capitals A to Z and U+00C0 to U+00DE (without
  the multiplication sign U+00D7) to their small letters and leaves every other
  character alone, \<open>trim\<close> strips the white space of the range (TAB, LF, VT, FF, CR,
  SPACE, NBSP). \<open>localeCompare\<close> depends on the locale of the browser and is a
  parameter of the model.
\<close>

definition startsWith :: "string \<Rightarrow> string \<Rightarrow> bool" where
  "startsWith s p = (take (length p) s = p)"

definition endsWith :: "string \<Rightarrow> string \<Rightarrow> bool" where
  "endsWith s p = (length p \<le> length s \<and> drop (length s - length p) s = p)"

fun includes_str :: "string \<Rightarrow> string \<Rightarrow> bool" where
  "includes_str [] p = (p = [])"
| "includes_str (c # cs) p = (startsWith (c # cs) p \<or> includes_str cs p)"

definition lower_char :: "char \<Rightarrow> char" where
  "lower_char c =
     (let n = (of_char c :: nat)
      in if (65 \<le> n \<and> n \<le> 90) \<or> (192 \<le> n \<and> n \<le> 222 \<and> n \<noteq> 215) then char_of (n + 32)
         else c)"

definition toLowerCase :: "string \<Rightarrow> string" where
  "toLowerCase s = map lower_char s"

definition isWhiteSpace :: "char \<Rightarrow> bool" where
  "isWhiteSpace c = ((of_char c :: nat) \<in> {9, 10, 11, 12, 13, 32, 160})"

definition trim :: "string \<Rightarrow> string" where
  "trim s = rev (dropWhile isWhiteSpace (rev (dropWhile isWhiteSpace s)))"

text \<open>\<open>s.split(sep)\<close> for a one-character separator: never the empty array.\<close>

fun split_str :: "char \<Rightarrow> string \<Rightarrow> string list" where
  "split_str sep [] = [] # []"
| "split_str sep (c # cs) =
     (if c = sep then [] # split_str sep cs
      else (case split_str sep cs of
              [] \<Rightarrow> [c] # []
            | seg # segs \<Rightarrow> (c # seg) # segs))"

fun join_str :: "string \<Rightarrow> string list \<Rightarrow> string" where
  "join_str sep [] = []"
| "join_str sep [s] = s"
| "join_str sep (s # t # ss) = s @ sep @ join_str sep (t # ss)"


text \<open>\<open>s.slice(n)\<close> and \<open>s.substring(n)\<close> for \<open>0 \<le> n\<close>, and \<open>s.substring(0, n)\<close>.\<close>

definition slice :: "string \<Rightarrow> nat \<Rightarrow> string" where
  "slice s n = drop n s"



text \<open>\<open>s.replace("/", "")\<close> with a string pattern removes the first occurrence only.\<close>

definition replace_first_slash :: "string \<Rightarrow> string" where
  "replace_first_slash s = remove1 (CHR ''/'') s"

text \<open>
  \<open>Array.prototype.sort(compare)\<close> is stable, and for a consistent comparator its result
  is the one stable sorted arrangement. \<open>sort_by\<close> computes it by stable insertion: an
  element goes in front of the first later element it does not have to follow.
\<close>

fun insort_by :: "('a \<Rightarrow> 'a \<Rightarrow> int) \<Rightarrow> 'a \<Rightarrow> 'a list \<Rightarrow> 'a list" where
  "insort_by cmp x [] = [x]"
| "insort_by cmp x (y # ys) =
     (if cmp x y \<le> 0 then x # y # ys else y # insort_by cmp x ys)"

definition sort_by :: "('a \<Rightarrow> 'a \<Rightarrow> int) \<Rightarrow> 'a list \<Rightarrow> 'a list" where
  "sort_by cmp xs = foldr (insort_by cmp) xs []"

text \<open>
  A consistent comparator (ECMAScript): \<open>a\<close> sorts before \<open>b\<close> exactly when \<open>b\<close> sorts
  after \<open>a\<close>, and "not after" is transitive.
\<close>

definition consistent :: "('a \<Rightarrow> 'a \<Rightarrow> int) \<Rightarrow> bool" where
  "consistent cmp \<longleftrightarrow>
     (\<forall>a b. cmp a b < 0 \<longleftrightarrow> 0 < cmp b a) \<and>
     (\<forall>a b c. cmp a b \<le> 0 \<longrightarrow> cmp b c \<le> 0 \<longrightarrow> cmp a c \<le> 0)"

section \<open>Data model (types/s3Types.ts)\<close>

record S3Credentials =
  accessKeyId :: string
  secretAccessKey :: string
  region :: string
  bucketName :: string

datatype itemType = File | Folder

text \<open>\<open>lastModified\<close> is a \<open>Date\<close>, kept as its time value in milliseconds.\<close>

record FileItem =
  key :: string
  name :: string
  fsize :: int
  lastModified :: int
  ftype :: itemType
  mimeType :: "string option"
  extension :: "string option"

datatype FileType = All | Images | Videos | Audio | Documents | Code | Archives | Others
datatype SortBy = ByName | BySize | ByLastModified
datatype SortOrder = Asc | Desc

section \<open>The storage client (AWS SDK) as the environment\<close>

text \<open>
  A thrown value is an \<open>Error\<close> with its message, or some other value.
  \<open>message_of\<close> is the expression
  \<open>error instanceof Error ? error.message : "Unknown error"\<close> of every catch block.
\<close>

datatype thrown = Error string | NonError

fun message_of :: "thrown \<Rightarrow> string" where
  "message_of (Error m) = m"
| "message_of NonError = ''Unknown error''"

type_synonym bytes = "char list"

text \<open>The commands the service builds, with the fields it sets (\<open>Bucket\<close> first).\<close>

datatype command =
    ListObjectsV2Command string "string option" "string option" "nat option"
  | GetObjectCommand string string
  | PutObjectCommand string string bytes "string option" "int option"
  | DeleteObjectCommand string string
  | CopyObjectCommand string string string

fun Bucket :: "command \<Rightarrow> string" where
  "Bucket (ListObjectsV2Command b pfx dlm mk) = b"
| "Bucket (GetObjectCommand b k) = b"
| "Bucket (PutObjectCommand b k body ct cl) = b"
| "Bucket (DeleteObjectCommand b k) = b"
| "Bucket (CopyObjectCommand b src k) = b"

text \<open>A request to the SDK: \<open>client.send(command)\<close> or \<open>getSignedUrl(client, command, {expiresIn})\<close>.\<close>

datatype request = Send command | Sign command int

fun command_of :: "request \<Rightarrow> command" where
  "command_of (Send c) = c"
| "command_of (Sign c e) = c"

record commonPrefix =
  Prefix :: "string option"

record s3object =
  Key :: "string option"
  Size :: "int option"
  LastModified :: "int option"

text \<open>
  The output object of a command; a field the output does not carry reads as
  \<open>undefined\<close> (\<open>None\<close>). \<open>Body.transformToByteArray()\<close> yields the bytes or throws.
\<close>

record sdk_output =
  CommonPrefixes :: "commonPrefix list option"
  Contents :: "s3object list option"
  Body :: "(thrown + bytes) option"

record clientConfig =
  cfg_region :: string
  cfg_accessKeyId :: string
  cfg_secretAccessKey :: string

text \<open>
  The platform: the SDK client (which answers or throws, and may change the outside
  world \<open>'w\<close>), the presigner, the clock behind \<open>new Date()\<close>, and \<open>localeCompare\<close>.
\<close>

record 'w platform =
  send :: "clientConfig \<Rightarrow> command \<Rightarrow> 'w \<Rightarrow> (thrown + sdk_output) \<times> 'w"
  getSignedUrl :: "clientConfig \<Rightarrow> command \<Rightarrow> int \<Rightarrow> 'w \<Rightarrow> (thrown + string) \<times> 'w"
  newDate :: "'w \<Rightarrow> int \<times> 'w"
  localeCompare :: "string \<Rightarrow> string \<Rightarrow> int"

text \<open>
  The state threaded through the program: the outside world and the journal of the
  requests issued so far, each with what it threw (\<open>None\<close> when it returned).
\<close>

record 'w world =
  outside :: 'w
  journal :: "(request \<times> thrown option) list"

fun thrown_of :: "thrown + 'a \<Rightarrow> thrown option" where
  "thrown_of (Inl t) = Some t"
| "thrown_of (Inr v) = None"

section \<open>S3Service (services/S3Service.ts)\<close>

record S3Service =
  s3Client :: clientConfig
  svc_bucketName :: string

definition new_S3Service :: "S3Credentials \<Rightarrow> S3Service" where
  "new_S3Service credentials =
     \<lparr> s3Client = \<lparr> cfg_region = region credentials,
                    cfg_accessKeyId = accessKeyId credentials,
                    cfg_secretAccessKey = secretAccessKey credentials \<rparr>,
       svc_bucketName = bucketName credentials \<rparr>"

definition client_send ::
  "'w platform \<Rightarrow> S3Service \<Rightarrow> command \<Rightarrow> 'w world \<Rightarrow> (thrown + sdk_output) \<times> 'w world" where
  "client_send pf svc cmd w =
     (case send pf (s3Client svc) cmd (outside w) of
        (r, o') \<Rightarrow> (r, \<lparr> outside = o', journal = journal w @ [(Send cmd, thrown_of r)] \<rparr>))"

definition client_sign ::
  "'w platform \<Rightarrow> S3Service \<Rightarrow> command \<Rightarrow> int \<Rightarrow> 'w world \<Rightarrow> (thrown + string) \<times> 'w world" where
  "client_sign pf svc cmd expiresIn w =
     (case getSignedUrl pf (s3Client svc) cmd expiresIn (outside w) of
        (r, o') \<Rightarrow> (r, \<lparr> outside = o', journal = journal w @ [(Sign cmd expiresIn, thrown_of r)] \<rparr>))"

definition read_clock :: "'w platform \<Rightarrow> 'w world \<Rightarrow> int \<times> 'w world" where
  "read_clock pf w = (case newDate pf (outside w) of (t, o') \<Rightarrow> (t, w\<lparr> outside := o' \<rparr>))"

text \<open>
  \<open>getMimeType\<close>: the table of the source, \<open>application/octet-stream\<close> for any other
  extension. (The source indexes an object literal, so the extensions \<open>constructor\<close>
  and \<open>__proto__\<close> read an inherited property that is no string; these two
  extensions are outside the model.)
\<close>

definition mimeTypes :: "(string \<times> string) list" where
  "mimeTypes =
    [(''jpg'', ''image/jpeg''), (''jpeg'', ''image/jpeg''), (''png'', ''image/png''),
     (''gif'', ''image/gif''), (''svg'', ''image/svg+xml''), (''bmp'', ''image/bmp''),
     (''webp'', ''image/webp''),
     (''mp4'', ''video/mp4''), (''avi'', ''video/avi''), (''mov'', ''video/quicktime''),
     (''wmv'', ''video/x-ms-wmv''), (''flv'', ''video/x-flv''), (''webm'', ''video/webm''),
     (''mp3'', ''audio/mpeg''), (''wav'', ''audio/wav''), (''ogg'', ''audio/ogg''),
     (''m4a'', ''audio/mp4''), (''flac'', ''audio/flac''),
     (''pdf'', ''application/pdf''), (''doc'', ''application/msword''),
     (''docx'', ''application/vnd.openxmlformats-officedocument.wordprocessingml.document''),
     (''xls'', ''application/vnd.ms-excel''),
     (''xlsx'', ''application/vnd.openxmlformats-officedocument.spreadsheetml.sheet''),
     (''ppt'', ''application/vnd.ms-powerpoint''),
     (''pptx'', ''application/vnd.openxmlformats-officedocument.presentationml.presentation''),
     (''js'', ''text/javascript''), (''ts'', ''text/typescript''), (''html'', ''text/html''),
     (''css'', ''text/css''), (''json'', ''application/json''), (''xml'', ''application/xml''),
     (''txt'', ''text/plain''), (''md'', ''text/markdown''),
     (''zip'', ''application/zip''), (''rar'', ''application/x-rar-compressed''),
     (''7z'', ''application/x-7z-compressed''), (''tar'', ''application/x-tar''),
     (''gz'', ''application/gzip'')]"

definition getMimeType :: "string \<Rightarrow> string" where
  "getMimeType ext =
     (case map_of mimeTypes ext of
        None \<Rightarrow> ''application/octet-stream''
      | Some m \<Rightarrow> if m = [] then ''application/octet-stream'' else m)"

text \<open>The loop over \<open>response.CommonPrefixes\<close>, pushing onto \<open>files\<close>.\<close>

fun addFolders ::
  "'w platform \<Rightarrow> string \<Rightarrow> commonPrefix list \<Rightarrow> FileItem list \<Rightarrow> 'w world
     \<Rightarrow> FileItem list \<times> 'w world" where
  "addFolders pf prefix [] files w = (files, w)"
| "addFolders pf prefix (folderPrefix # rest) files w =
     (case Prefix folderPrefix of
        None \<Rightarrow> addFolders pf prefix rest files w
      | Some p \<Rightarrow>
          if p = [] then addFolders pf prefix rest files w
          else
            (let folderName = replace_first_slash (slice p (length prefix))
             in if folderName = [] then addFolders pf prefix rest files w
                else
                  (case read_clock pf w of
                     (now, w') \<Rightarrow>
                       addFolders pf prefix rest
                         (files @ [\<lparr> key = p, name = folderName, fsize = 0,
                                     lastModified = now, ftype = Folder,
                                     mimeType = None, extension = None \<rparr>]) w')))"

text \<open>The loop over \<open>response.Contents\<close>.\<close>

fun addFiles ::
  "'w platform \<Rightarrow> string \<Rightarrow> s3object list \<Rightarrow> FileItem list \<Rightarrow> 'w world
     \<Rightarrow> FileItem list \<times> 'w world" where
  "addFiles pf prefix [] files w = (files, w)"
| "addFiles pf prefix (object # rest) files w =
     (case Key object of
        None \<Rightarrow> addFiles pf prefix rest files w
      | Some k \<Rightarrow>
          if k \<noteq> [] \<and> k \<noteq> prefix \<and> \<not> endsWith k ''/'' then
            (let fileName = slice k (length prefix);
                 ext = toLowerCase (last (split_str (CHR ''.'') fileName));
                 mime = getMimeType ext;
                 sz = (case Size object of None \<Rightarrow> 0 | Some n \<Rightarrow> n)
             in case (case LastModified object of
                        Some t \<Rightarrow> (t, w)
                      | None \<Rightarrow> read_clock pf w) of
                  (lm, w') \<Rightarrow>
                    addFiles pf prefix rest
                      (files @ [\<lparr> key = k, name = fileName, fsize = sz,
                                  lastModified = lm, ftype = File,
                                  mimeType = Some mime, extension = Some ext \<rparr>]) w')
          else addFiles pf prefix rest files w)"

text \<open>The comparator of the listing: folders first, then by name.\<close>

definition listCompare :: "(string \<Rightarrow> string \<Rightarrow> int) \<Rightarrow> FileItem \<Rightarrow> FileItem \<Rightarrow> int" where
  "listCompare lc a b =
     (if ftype a \<noteq> ftype b then (if ftype a = Folder then - 1 else 1)
      else lc (name a) (name b))"

definition collectItems ::
  "'w platform \<Rightarrow> string \<Rightarrow> sdk_output \<Rightarrow> 'w world \<Rightarrow> FileItem list \<times> 'w world" where
  "collectItems pf prefix response w =
     (case (case CommonPrefixes response of
              None \<Rightarrow> ([], w)
            | Some cps \<Rightarrow> addFolders pf prefix cps [] w) of
        (files1, w1) \<Rightarrow>
          (case Contents response of
             None \<Rightarrow> (files1, w1)
           | Some objs \<Rightarrow> addFiles pf prefix objs files1 w1))"

definition listFiles ::
  "'w platform \<Rightarrow> S3Service \<Rightarrow> string \<Rightarrow> 'w world \<Rightarrow> (thrown + FileItem list) \<times> 'w world" where
  "listFiles pf svc prefix w =
     (case client_send pf svc
             (ListObjectsV2Command (svc_bucketName svc) (Some prefix) (Some ''/'') None) w of
        (Inl e, w1) \<Rightarrow> (Inl (Error (''Failed to list files: '' @ message_of e)), w1)
      | (Inr response, w1) \<Rightarrow>
          (case collectItems pf prefix response w1 of
             (files, w2) \<Rightarrow> (Inr (sort_by (listCompare (localeCompare pf)) files), w2)))"

text \<open>The browser's \<open>File\<close>: \<open>arrayBuffer()\<close> yields the content or rejects.\<close>

record jsfile =
  file_name :: string
  file_type :: string
  file_size :: int
  arrayBuffer :: "thrown + bytes"

text \<open>\<open>s.replace(pat, "")\<close> with a string pattern: the first occurrence of \<open>pat\<close> is cut out.\<close>

fun remove_first :: "string \<Rightarrow> string \<Rightarrow> string" where
  "remove_first [] pat = []"
| "remove_first (c # cs) pat =
     (if startsWith (c # cs) pat then drop (length pat) (c # cs)
      else c # remove_first cs pat)"

definition testConnection ::
  "'w platform \<Rightarrow> S3Service \<Rightarrow> 'w world \<Rightarrow> (thrown + unit) \<times> 'w world" where
  "testConnection pf svc w =
     (case client_send pf svc (ListObjectsV2Command (svc_bucketName svc) None None (Some 1)) w of
        (Inl e, w1) \<Rightarrow> (Inl (Error (''Connection failed: '' @ message_of e)), w1)
      | (Inr response, w1) \<Rightarrow> (Inr (), w1))"

definition upload_key :: "jsfile \<Rightarrow> string \<Rightarrow> string" where
  "upload_key file path = (if path \<noteq> [] then path @ file_name file else file_name file)"

definition uploadFile ::
  "'w platform \<Rightarrow> S3Service \<Rightarrow> jsfile \<Rightarrow> string \<Rightarrow> 'w world \<Rightarrow> (thrown + unit) \<times> 'w world" where
  "uploadFile pf svc file path w =
     (case arrayBuffer file of
        Inl e \<Rightarrow> (Inl (Error (''Upload failed: '' @ message_of e)), w)
      | Inr fileBuffer \<Rightarrow>
          (case client_send pf svc
                  (PutObjectCommand (svc_bucketName svc) (upload_key file path) fileBuffer
                     (Some (file_type file)) (Some (file_size file))) w of
             (Inl e, w1) \<Rightarrow> (Inl (Error (''Upload failed: '' @ message_of e)), w1)
           | (Inr response, w1) \<Rightarrow> (Inr (), w1)))"

definition deleteFile ::
  "'w platform \<Rightarrow> S3Service \<Rightarrow> string \<Rightarrow> 'w world \<Rightarrow> (thrown + unit) \<times> 'w world" where
  "deleteFile pf svc k w =
     (case client_send pf svc (DeleteObjectCommand (svc_bucketName svc) k) w of
        (Inl e, w1) \<Rightarrow> (Inl (Error (''Delete failed: '' @ message_of e)), w1)
      | (Inr response, w1) \<Rightarrow> (Inr (), w1))"

text \<open>The new key of a rename: the last \<open>/\<close>-separated part of the old key is overwritten.\<close>

definition rename_newKey :: "string \<Rightarrow> string \<Rightarrow> string" where
  "rename_newKey oldKey newName =
     (let pathParts = split_str (CHR ''/'') oldKey
      in join_str ''/'' (pathParts[length pathParts - 1 := newName]))"

definition renameFile ::
  "'w platform \<Rightarrow> S3Service \<Rightarrow> string \<Rightarrow> string \<Rightarrow> 'w world \<Rightarrow> (thrown + unit) \<times> 'w world" where
  "renameFile pf svc oldKey newName w =
     (case client_send pf svc
             (CopyObjectCommand (svc_bucketName svc) (svc_bucketName svc @ ''/'' @ oldKey)
                (rename_newKey oldKey newName)) w of
        (Inl e, w1) \<Rightarrow> (Inl (Error (''Rename failed: '' @ message_of e)), w1)
      | (Inr response, w1) \<Rightarrow>
          (case deleteFile pf svc oldKey w1 of
             (Inl e, w2) \<Rightarrow> (Inl (Error (''Rename failed: '' @ message_of e)), w2)
           | (Inr u, w2) \<Rightarrow> (Inr (), w2)))"

definition createFolder ::
  "'w platform \<Rightarrow> S3Service \<Rightarrow> string \<Rightarrow> 'w world \<Rightarrow> (thrown + unit) \<times> 'w world" where
  "createFolder pf svc folderPath w =
     (case client_send pf svc (PutObjectCommand (svc_bucketName svc) folderPath [] None None) w of
        (Inl e, w1) \<Rightarrow> (Inl (Error (''Create folder failed: '' @ message_of e)), w1)
      | (Inr response, w1) \<Rightarrow> (Inr (), w1))"

text \<open>
  \<open>downloadFile\<close> returns the download handed to the browser (file name and content),
  \<open>None\<close> when the response has no body.
\<close>

definition downloadFile ::
  "'w platform \<Rightarrow> S3Service \<Rightarrow> string \<Rightarrow> string \<Rightarrow> 'w world
     \<Rightarrow> (thrown + (string \<times> bytes) option) \<times> 'w world" where
  "downloadFile pf svc k fileName w =
     (case client_send pf svc (GetObjectCommand (svc_bucketName svc) k) w of
        (Inl e, w1) \<Rightarrow> (Inl (Error (''Download failed: '' @ message_of e)), w1)
      | (Inr response, w1) \<Rightarrow>
          (case Body response of
             None \<Rightarrow> (Inr None, w1)
           | Some (Inl e) \<Rightarrow> (Inl (Error (''Download failed: '' @ message_of e)), w1)
           | Some (Inr blob) \<Rightarrow> (Inr (Some (fileName, blob)), w1)))"

definition generatePresignedUrl ::
  "'w platform \<Rightarrow> S3Service \<Rightarrow> string \<Rightarrow> int \<Rightarrow> 'w world \<Rightarrow> (thrown + string) \<times> 'w world" where
  "generatePresignedUrl pf svc k expiresIn w =
     (case client_sign pf svc (GetObjectCommand (svc_bucketName svc) k) expiresIn w of
        (Inl e, w1) \<Rightarrow> (Inl (Error (''Generate URL failed: '' @ message_of e)), w1)
      | (Inr url, w1) \<Rightarrow> (Inr url, w1))"

definition getFileUrl ::
  "'w platform \<Rightarrow> S3Service \<Rightarrow> string \<Rightarrow> 'w world \<Rightarrow> (thrown + string) \<times> 'w world" where
  "getFileUrl pf svc k w =
     (case client_sign pf svc (GetObjectCommand (svc_bucketName svc) k) 3600 w of
        (Inl e, w1) \<Rightarrow> (Inl (Error (''Get file URL failed: '' @ message_of e)), w1)
      | (Inr url, w1) \<Rightarrow> (Inr url, w1))"

text \<open>The loop of \<open>downloadFolderContents\<close>; what it throws reaches the catch block.\<close>

fun downloadEach ::
  "'w platform \<Rightarrow> S3Service \<Rightarrow> string \<Rightarrow> s3object list \<Rightarrow> (string \<times> bytes) list \<Rightarrow> 'w world
     \<Rightarrow> (thrown + (string \<times> bytes) list) \<times> 'w world" where
  "downloadEach pf svc folderKey [] files w = (Inr files, w)"
| "downloadEach pf svc folderKey (object # rest) files w =
     (case Key object of
        None \<Rightarrow> downloadEach pf svc folderKey rest files w
      | Some k \<Rightarrow>
          if k \<noteq> [] \<and> \<not> endsWith k ''/'' then
            (case client_send pf svc (GetObjectCommand (svc_bucketName svc) k) w of
               (Inl e, w1) \<Rightarrow> (Inl e, w1)
             | (Inr fileResponse, w1) \<Rightarrow>
                 (case Body fileResponse of
                    None \<Rightarrow> downloadEach pf svc folderKey rest files w1
                  | Some (Inl e) \<Rightarrow> (Inl e, w1)
                  | Some (Inr content) \<Rightarrow>
                      downloadEach pf svc folderKey rest
                        (files @ [(remove_first k folderKey, content)]) w1))
          else downloadEach pf svc folderKey rest files w)"

definition downloadFolderContents ::
  "'w platform \<Rightarrow> S3Service \<Rightarrow> string \<Rightarrow> 'w world
     \<Rightarrow> (thrown + (string \<times> bytes) list) \<times> 'w world" where
  "downloadFolderContents pf svc folderKey w =
     (case client_send pf svc
             (ListObjectsV2Command (svc_bucketName svc) (Some folderKey) None None) w of
        (Inl e, w1) \<Rightarrow> (Inl (Error (''Download folder failed: '' @ message_of e)), w1)
      | (Inr response, w1) \<Rightarrow>
          (case (case Contents response of
                   None \<Rightarrow> (Inr [], w1)
                 | Some objs \<Rightarrow> downloadEach pf svc folderKey objs [] w1) of
             (Inl e, w2) \<Rightarrow> (Inl (Error (''Download folder failed: '' @ message_of e)), w2)
           | (Inr files, w2) \<Rightarrow> (Inr files, w2)))"

subsection \<open>The operations of the service, as one type\<close>

datatype operation =
    TestConnection
  | ListFiles string
  | UploadFile jsfile string
  | DeleteFile string
  | RenameFile string string
  | CreateFolder string
  | DownloadFile string string
  | GeneratePresignedUrl string int
  | GetFileUrl string
  | DownloadFolderContents string

definition outcome :: "(thrown + 'a) \<times> 'w world \<Rightarrow> thrown option \<times> 'w world" where
  "outcome rw = (thrown_of (fst rw), snd rw)"

text \<open>Running an operation: what it throws (\<open>None\<close> when it returns) and the new state.\<close>

fun run :: "'w platform \<Rightarrow> S3Service \<Rightarrow> operation \<Rightarrow> 'w world \<Rightarrow> thrown option \<times> 'w world" where
  "run pf svc TestConnection w = outcome (testConnection pf svc w)"
| "run pf svc (ListFiles prefix) w = outcome (listFiles pf svc prefix w)"
| "run pf svc (UploadFile file path) w = outcome (uploadFile pf svc file path w)"
| "run pf svc (DeleteFile k) w = outcome (deleteFile pf svc k w)"
| "run pf svc (RenameFile oldKey newName) w = outcome (renameFile pf svc oldKey newName w)"
| "run pf svc (CreateFolder folderPath) w = outcome (createFolder pf svc folderPath w)"
| "run pf svc (DownloadFile k fileName) w = outcome (downloadFile pf svc k fileName w)"
| "run pf svc (GeneratePresignedUrl k expiresIn) w = outcome (generatePresignedUrl pf svc k expiresIn w)"
| "run pf svc (GetFileUrl k) w = outcome (getFileUrl pf svc k w)"
| "run pf svc (DownloadFolderContents folderKey) w = outcome (downloadFolderContents pf svc folderKey w)"

text \<open>The message prefix of the catch block of each operation.\<close>

fun failure_prefix :: "operation \<Rightarrow> string" where
  "failure_prefix TestConnection = ''Connection failed: ''"
| "failure_prefix (ListFiles prefix) = ''Failed to list files: ''"
| "failure_prefix (UploadFile file path) = ''Upload failed: ''"
| "failure_prefix (DeleteFile k) = ''Delete failed: ''"
| "failure_prefix (RenameFile oldKey newName) = ''Rename failed: ''"
| "failure_prefix (CreateFolder folderPath) = ''Create folder failed: ''"
| "failure_prefix (DownloadFile k fileName) = ''Download failed: ''"
| "failure_prefix (GeneratePresignedUrl k expiresIn) = ''Generate URL failed: ''"
| "failure_prefix (GetFileUrl k) = ''Get file URL failed: ''"
| "failure_prefix (DownloadFolderContents folderKey) = ''Download folder failed: ''"


text \<open>The requests that change the bucket.\<close>

fun is_mutation :: "request \<Rightarrow> bool" where
  "is_mutation (Send (PutObjectCommand b k body ct cl)) = True"
| "is_mutation (Send (DeleteObjectCommand b k)) = True"
| "is_mutation (Send (CopyObjectCommand b src k)) = True"
| "is_mutation rq = False"

text \<open>The part of the journal written since an earlier state.\<close>

definition issued :: "'w world \<Rightarrow> 'w world \<Rightarrow> (request \<times> thrown option) list" where
  "issued w w' = drop (length (journal w)) (journal w')"

section \<open>The dashboard page (pages/Index.tsx)\<close>

record indexState =
  isConnected :: bool
  credentials :: "S3Credentials option"
  currentPath :: string
  files :: "FileItem list"
  selectedFile :: "FileItem option"
  selectedFiles :: "FileItem list"
  loading :: bool

definition loadFiles ::
  "'w platform \<Rightarrow> string \<Rightarrow> indexState \<Rightarrow> 'w world \<Rightarrow> indexState \<times> 'w world" where
  "loadFiles pf path ui w =
     (case credentials ui of
        None \<Rightarrow> (ui, w)
      | Some creds \<Rightarrow>
          (case listFiles pf (new_S3Service creds) path w of
             (Inr fileList, w1) \<Rightarrow>
               (ui\<lparr> files := fileList, currentPath := path, loading := False \<rparr>, w1)
           | (Inl e, w1) \<Rightarrow> (ui\<lparr> loading := False \<rparr>, w1)))"

text \<open>The loops of \<open>handleUpload\<close> and \<open>handleDelete\<close>: the catch block rethrows.\<close>

fun uploadEach ::
  "'w platform \<Rightarrow> S3Service \<Rightarrow> jsfile list \<Rightarrow> string \<Rightarrow> 'w world \<Rightarrow> (thrown + unit) \<times> 'w world" where
  "uploadEach pf svc [] path w = (Inr (), w)"
| "uploadEach pf svc (file # rest) path w =
     (case uploadFile pf svc file path w of
        (Inl e, w1) \<Rightarrow> (Inl e, w1)
      | (Inr u, w1) \<Rightarrow> uploadEach pf svc rest path w1)"

definition handleUpload ::
  "'w platform \<Rightarrow> jsfile list \<Rightarrow> string \<Rightarrow> indexState \<Rightarrow> 'w world
     \<Rightarrow> (thrown + unit) \<times> indexState \<times> 'w world" where
  "handleUpload pf fs path ui w =
     (case credentials ui of
        None \<Rightarrow> (Inr (), ui, w)
      | Some creds \<Rightarrow>
          (case uploadEach pf (new_S3Service creds) fs path w of
             (Inl e, w1) \<Rightarrow> (Inl e, ui, w1)
           | (Inr u, w1) \<Rightarrow> (Inr (), loadFiles pf (currentPath ui) ui w1)))"

fun deleteEach ::
  "'w platform \<Rightarrow> S3Service \<Rightarrow> FileItem list \<Rightarrow> 'w world \<Rightarrow> (thrown + unit) \<times> 'w world" where
  "deleteEach pf svc [] w = (Inr (), w)"
| "deleteEach pf svc (file # rest) w =
     (case deleteFile pf svc (key file) w of
        (Inl e, w1) \<Rightarrow> (Inl e, w1)
      | (Inr u, w1) \<Rightarrow> deleteEach pf svc rest w1)"

definition handleDelete ::
  "'w platform \<Rightarrow> FileItem list \<Rightarrow> indexState \<Rightarrow> 'w world
     \<Rightarrow> (thrown + unit) \<times> indexState \<times> 'w world" where
  "handleDelete pf filesToDelete ui w =
     (case credentials ui of
        None \<Rightarrow> (Inr (), ui, w)
      | Some creds \<Rightarrow>
          (case deleteEach pf (new_S3Service creds) filesToDelete w of
             (Inl e, w1) \<Rightarrow> (Inl e, ui, w1)
           | (Inr u, w1) \<Rightarrow>
               (case loadFiles pf (currentPath ui) ui w1 of
                  (ui', w2) \<Rightarrow> (Inr (), ui'\<lparr> selectedFiles := [], selectedFile := None \<rparr>, w2))))"

definition handleRename ::
  "'w platform \<Rightarrow> FileItem \<Rightarrow> string \<Rightarrow> indexState \<Rightarrow> 'w world
     \<Rightarrow> (thrown + unit) \<times> indexState \<times> 'w world" where
  "handleRename pf file newName ui w =
     (case credentials ui of
        None \<Rightarrow> (Inr (), ui, w)
      | Some creds \<Rightarrow>
          (case renameFile pf (new_S3Service creds) (key file) newName w of
             (Inl e, w1) \<Rightarrow> (Inl e, ui, w1)
           | (Inr u, w1) \<Rightarrow> (Inr (), loadFiles pf (currentPath ui) ui w1)))"

definition folderPath_of :: "string \<Rightarrow> string \<Rightarrow> string" where
  "folderPath_of path folderName =
     (if path \<noteq> [] then path @ folderName @ ''/'' else folderName @ ''/'')"

definition handleCreateFolder ::
  "'w platform \<Rightarrow> string \<Rightarrow> indexState \<Rightarrow> 'w world
     \<Rightarrow> (thrown + unit) \<times> indexState \<times> 'w world" where
  "handleCreateFolder pf folderName ui w =
     (case credentials ui of
        None \<Rightarrow> (Inr (), ui, w)
      | Some creds \<Rightarrow>
          (case createFolder pf (new_S3Service creds)
                  (folderPath_of (currentPath ui) folderName) w of
             (Inl e, w1) \<Rightarrow> (Inl e, ui, w1)
           | (Inr u, w1) \<Rightarrow> (Inr (), loadFiles pf (currentPath ui) ui w1)))"

section \<open>The file browser (components/FileBrowser.tsx)\<close>

definition documentExtensions :: "string list" where
  "documentExtensions = [''pdf'', ''doc'', ''docx'', ''xls'', ''xlsx'', ''ppt'', ''pptx'']"

definition codeExtensions :: "string list" where
  "codeExtensions = [''js'', ''ts'', ''html'', ''css'', ''json'', ''xml'', ''txt'', ''md'',
                     ''py'', ''java'', ''cpp'', ''c'']"

definition codeExtensionsShort :: "string list" where
  "codeExtensionsShort = [''js'', ''ts'', ''html'', ''css'', ''json'', ''xml'', ''txt'', ''md'']"

definition archiveExtensions :: "string list" where
  "archiveExtensions = [''zip'', ''rar'', ''7z'', ''tar'', ''gz'']"

text \<open>The inner switch of the \<open>others\<close> case (its code list is the shorter one).\<close>

fun inCategory :: "FileType \<Rightarrow> string \<Rightarrow> string \<Rightarrow> bool" where
  "inCategory Images mime ext = startsWith mime ''image/''"
| "inCategory Videos mime ext = startsWith mime ''video/''"
| "inCategory Audio mime ext = startsWith mime ''audio/''"
| "inCategory Documents mime ext = (ext \<in> set documentExtensions)"
| "inCategory Code mime ext = (ext \<in> set codeExtensionsShort)"
| "inCategory Archives mime ext = (ext \<in> set archiveExtensions)"
| "inCategory ty mime ext = False"

text \<open>The predicate of the type filter, applied when \<open>filterType\<close> is not \<open>all\<close>.\<close>

definition typeFilter :: "FileType \<Rightarrow> FileItem \<Rightarrow> bool" where
  "typeFilter filterType file =
     (if ftype file = Folder then False
      else
        (let ext = (case extension file of None \<Rightarrow> [] | Some e \<Rightarrow> toLowerCase e);
             mime = (case mimeType file of None \<Rightarrow> [] | Some m \<Rightarrow> m)
         in case filterType of
              Images \<Rightarrow> startsWith mime ''image/''
            | Videos \<Rightarrow> startsWith mime ''video/''
            | Audio \<Rightarrow> startsWith mime ''audio/''
            | Documents \<Rightarrow> ext \<in> set documentExtensions
            | Code \<Rightarrow> ext \<in> set codeExtensions
            | Archives \<Rightarrow> ext \<in> set archiveExtensions
            | Others \<Rightarrow>
                \<not> list_ex (\<lambda>ty. inCategory ty mime ext)
                    [Images, Videos, Audio, Documents, Code, Archives]
            | All \<Rightarrow> True))"

definition filteredFiles :: "FileItem list \<Rightarrow> string \<Rightarrow> FileType \<Rightarrow> FileItem list" where
  "filteredFiles fs searchTerm filterType =
     (let filtered =
            (if searchTerm \<noteq> []
             then filter (\<lambda>file. includes_str (toLowerCase (name file)) (toLowerCase searchTerm)) fs
             else fs)
      in if filterType \<noteq> All then filter (typeFilter filterType) filtered else filtered)"

text \<open>The comparator of the displayed list: folders first, then the chosen key and order.\<close>

definition keyCompare ::
  "(string \<Rightarrow> string \<Rightarrow> int) \<Rightarrow> SortBy \<Rightarrow> SortOrder \<Rightarrow> FileItem \<Rightarrow> FileItem \<Rightarrow> int" where
  "keyCompare lc sortBy sortOrder a b =
     (let comparison =
            (case sortBy of
               ByName \<Rightarrow> lc (name a) (name b)
             | BySize \<Rightarrow> fsize a - fsize b
             | ByLastModified \<Rightarrow> lastModified a - lastModified b)
      in if sortOrder = Desc then - comparison else comparison)"

definition displayCompare ::
  "(string \<Rightarrow> string \<Rightarrow> int) \<Rightarrow> SortBy \<Rightarrow> SortOrder \<Rightarrow> FileItem \<Rightarrow> FileItem \<Rightarrow> int" where
  "displayCompare lc sortBy sortOrder a b =
     (if ftype a \<noteq> ftype b then (if ftype a = Folder then - 1 else 1)
      else keyCompare lc sortBy sortOrder a b)"

definition filteredAndSortedFiles ::
  "(string \<Rightarrow> string \<Rightarrow> int) \<Rightarrow> FileItem list \<Rightarrow> string \<Rightarrow> FileType \<Rightarrow> SortBy \<Rightarrow> SortOrder
     \<Rightarrow> FileItem list" where
  "filteredAndSortedFiles lc fs searchTerm filterType sortBy sortOrder =
     sort_by (displayCompare lc sortBy sortOrder) (filteredFiles fs searchTerm filterType)"



section \<open>A reference store\<close>

text \<open>
  An in-memory object store behind the client interface, to run the program on concrete
  buckets and to say what a sequence of commands does to a bucket: objects are kept by
  bucket and key; a put writes, a delete removes, a copy writes the content of its
  source (\<open>bucket/key\<close>, read as it is written) to its destination, a get or copy of
  a missing object throws. As S3 does, the store refuses a copy of an object onto
  itself: the copy commands of the service change no metadata, and S3 answers such a
  copy with an error. A schedule of faults lets any request throw without effect.
\<close>

record store =
  objects :: "((string \<times> string) \<times> bytes) list"
  faults :: "thrown option list"
  clock :: int

definition next_fault :: "store \<Rightarrow> thrown option \<times> store" where
  "next_fault s = (case faults s of [] \<Rightarrow> (None, s) | f # fs \<Rightarrow> (f, s\<lparr> faults := fs \<rparr>))"

definition copy_source :: "string \<Rightarrow> string \<times> string" where
  "copy_source src =
     (takeWhile (\<lambda>c. c \<noteq> CHR ''/'') src, drop 1 (dropWhile (\<lambda>c. c \<noteq> CHR ''/'') src))"

definition empty_output :: sdk_output where
  "empty_output = \<lparr> CommonPrefixes = None, Contents = None, Body = None \<rparr>"

definition some_unless_empty :: "'a list \<Rightarrow> 'a list option" where
  "some_unless_empty xs = (if xs = [] then None else Some xs)"

definition list_objects ::
  "store \<Rightarrow> string \<Rightarrow> string option \<Rightarrow> string option \<Rightarrow> nat option \<Rightarrow> sdk_output" where
  "list_objects s b pfx dlm mk =
     (let p = (case pfx of None \<Rightarrow> [] | Some q \<Rightarrow> q);
          hits = filter (\<lambda>((b', k), c). b' = b \<and> startsWith k p) (objects s);
          hits' = (case mk of None \<Rightarrow> hits | Some n \<Rightarrow> take n hits);
          grouped = (\<lambda>k. case dlm of
                            Some [d] \<Rightarrow> d \<in> set (drop (length p) k)
                          | _ \<Rightarrow> False);
          group_of = (\<lambda>k. case dlm of
                             Some [d] \<Rightarrow> p @ takeWhile (\<lambda>c. c \<noteq> d) (drop (length p) k) @ [d]
                           | _ \<Rightarrow> k)
      in \<lparr> CommonPrefixes = some_unless_empty
             (map (\<lambda>g. \<lparr> Prefix = Some g \<rparr>)
                (remdups (map (\<lambda>((b', k), c). group_of k)
                   (filter (\<lambda>((b', k), c). grouped k) hits')))),
           Contents = some_unless_empty
             (map (\<lambda>((b', k), c). \<lparr> Key = Some k, Size = Some (int (length c)),
                                     LastModified = None \<rparr>)
                (filter (\<lambda>((b', k), c). \<not> grouped k) hits')),
           Body = None \<rparr>)"

definition self_copy_message :: string where
  "self_copy_message =
     ''This copy request is illegal because it is trying to copy an object to itself.''"

fun store_exec :: "command \<Rightarrow> store \<Rightarrow> (thrown + sdk_output) \<times> store" where
  "store_exec (ListObjectsV2Command b pfx dlm mk) s = (Inr (list_objects s b pfx dlm mk), s)"
| "store_exec (GetObjectCommand b k) s =
     (case map_of (objects s) (b, k) of
        None \<Rightarrow> (Inl (Error ''The specified key does not exist.''), s)
      | Some c \<Rightarrow> (Inr (empty_output\<lparr> Body := Some (Inr c) \<rparr>), s))"
| "store_exec (PutObjectCommand b k body ct cl) s =
     (Inr empty_output, s\<lparr> objects := AList.update (b, k) body (objects s) \<rparr>)"
| "store_exec (DeleteObjectCommand b k) s =
     (Inr empty_output, s\<lparr> objects := AList.delete (b, k) (objects s) \<rparr>)"
| "store_exec (CopyObjectCommand b src k) s =
     (if copy_source src = (b, k) then (Inl (Error self_copy_message), s)
      else
        (case map_of (objects s) (copy_source src) of
           None \<Rightarrow> (Inl (Error ''The specified key does not exist.''), s)
         | Some c \<Rightarrow> (Inr empty_output, s\<lparr> objects := AList.update (b, k) c (objects s) \<rparr>)))"

definition store_send :: "clientConfig \<Rightarrow> command \<Rightarrow> store \<Rightarrow> (thrown + sdk_output) \<times> store" where
  "store_send cfg cmd s =
     (case next_fault s of
        (Some t, s1) \<Rightarrow> (Inl t, s1)
      | (None, s1) \<Rightarrow> store_exec cmd s1)"

definition store_sign :: "clientConfig \<Rightarrow> command \<Rightarrow> int \<Rightarrow> store \<Rightarrow> (thrown + string) \<times> store" where
  "store_sign cfg cmd expiresIn s =
     (case next_fault s of
        (Some t, s1) \<Rightarrow> (Inl t, s1)
      | (None, s1) \<Rightarrow> (Inr (''https://'' @ Bucket cmd @ ''.s3.amazonaws.com/?signed''), s1))"

text \<open>Comparison by code units, a consistent comparator standing for \<open>localeCompare\<close>.\<close>

fun codeunit_compare :: "string \<Rightarrow> string \<Rightarrow> int" where
  "codeunit_compare [] [] = 0"
| "codeunit_compare [] (y # ys) = - 1"
| "codeunit_compare (x # xs) [] = 1"
| "codeunit_compare (x # xs) (y # ys) =
     (if (of_char x :: nat) < of_char y then - 1
      else if (of_char y :: nat) < of_char x then 1
      else codeunit_compare xs ys)"

definition store_platform :: "store platform" where
  "store_platform =
     \<lparr> send = store_send,
       getSignedUrl = store_sign,
       newDate = (\<lambda>s. (clock s, s\<lparr> clock := clock s + 1 \<rparr>)),
       localeCompare = codeunit_compare \<rparr>"

definition object_at :: "store world \<Rightarrow> string \<Rightarrow> string \<Rightarrow> bytes option" where
  "object_at w b k = map_of (objects (outside w)) (b, k)"

text \<open>Concrete data for running the program.\<close>

definition demo_credentials :: S3Credentials where
  "demo_credentials =
     \<lparr> accessKeyId = ''AKIA'', secretAccessKey = ''secret'', region = ''us-east-1'',
       bucketName = ''demo'' \<rparr>"

definition demo_service :: S3Service where
  "demo_service = new_S3Service demo_credentials"

definition demo_world :: "thrown option list \<Rightarrow> store world" where
  "demo_world fl =
     \<lparr> outside = \<lparr> objects = [((''demo'', ''docs/a.txt''), ''hello''),
                               ((''demo'', ''docs/img/b.png''), ''png''),
                               ((''demo'', ''docs/''), '''')],
                   faults = fl, clock = 1000 \<rparr>,
       journal = [] \<rparr>"

section \<open>Predicates of the statements\<close>

text \<open>
  The contract of a listing with prefix \<open>X\<close>: every key of \<open>Contents\<close> and every
  prefix of \<open>CommonPrefixes\<close> in the response begins with \<open>X\<close>.
\<close>

definition within_prefix :: "string \<Rightarrow> sdk_output \<Rightarrow> bool" where
  "within_prefix X response \<longleftrightarrow>
     (case CommonPrefixes response of
        None \<Rightarrow> True
      | Some cps \<Rightarrow> list_all (\<lambda>cp. case Prefix cp of None \<Rightarrow> True | Some p \<Rightarrow> startsWith p X) cps)
     \<and> (case Contents response of
          None \<Rightarrow> True
        | Some objs \<Rightarrow> list_all (\<lambda>ob. case Key ob of None \<Rightarrow> True | Some k \<Rightarrow> startsWith k X) objs)"

definition list_command :: "S3Service \<Rightarrow> string \<Rightarrow> command" where
  "list_command svc prefix =
     ListObjectsV2Command (svc_bucketName svc) (Some prefix) (Some ''/'') None"

definition fst_response :: "(thrown + sdk_output) \<times> 'w world \<Rightarrow> sdk_output" where
  "fst_response rw = (case fst rw of Inr response \<Rightarrow> response | Inl e \<Rightarrow> empty_output)"

definition demo_listing :: "FileItem list" where
  "demo_listing =
     [\<lparr> key = ''docs/img/'', name = ''img'', fsize = 0, lastModified = 1000,
        ftype = Folder, mimeType = None, extension = None \<rparr>,
      \<lparr> key = ''docs/a.txt'', name = ''a.txt'', fsize = 5, lastModified = 1001,
        ftype = File, mimeType = Some ''text/plain'', extension = Some ''txt'' \<rparr>]"

definition isFolder :: "FileItem \<Rightarrow> bool" where
  "isFolder f \<longleftrightarrow> ftype f = Folder"

text \<open>Every folder entry of the list stands before every other entry.\<close>

definition folders_first :: "FileItem list \<Rightarrow> bool" where
  "folders_first xs \<longleftrightarrow>
     (\<forall>j < length xs. \<forall>i < j. ftype (xs ! j) = Folder \<longrightarrow> ftype (xs ! i) = Folder)"

text \<open>The list is in the order of the comparator: no entry has to follow a later one.\<close>

definition ordered_by :: "('a \<Rightarrow> 'a \<Rightarrow> int) \<Rightarrow> 'a list \<Rightarrow> bool" where
  "ordered_by cmp xs \<longleftrightarrow> sorted_wrt (\<lambda>a b. cmp a b \<le> 0) xs"

definition nameCompare :: "(string \<Rightarrow> string \<Rightarrow> int) \<Rightarrow> FileItem \<Rightarrow> FileItem \<Rightarrow> int" where
  "nameCompare lc a b = lc (name a) (name b)"

definition name_matches :: "string \<Rightarrow> FileItem \<Rightarrow> bool" where
  "name_matches searchTerm f \<longleftrightarrow> includes_str (toLowerCase (name f)) (toLowerCase searchTerm)"




text \<open>Of the requests of a run, only the last one may have thrown.\<close>

definition only_last_throws :: "(request \<times> thrown option) list \<Rightarrow> bool" where
  "only_last_throws new \<longleftrightarrow> (\<forall>e \<in> set (butlast new). snd e = None)"

text \<open>
  One request was issued, and if it threw, the operation threw the wrapped message.
\<close>

definition single_request ::
  "request \<Rightarrow> string \<Rightarrow> thrown option \<Rightarrow> (request \<times> thrown option) list \<Rightarrow> bool" where
  "single_request rq pfx res new \<longleftrightarrow>
     (\<exists>out. new = [(rq, out)] \<and>
        (case out of
           Some t \<Rightarrow> res = Some (Error (pfx @ message_of t))
         | None \<Rightarrow> True))"


text \<open>
  A run is orderly: every request names bucket \<open>b\<close>, only the last request may have
  thrown, and if it did, the operation threw the message with prefix \<open>pfx\<close>.
\<close>

definition orderly ::
  "string \<Rightarrow> string \<Rightarrow> thrown option \<Rightarrow> (request \<times> thrown option) list \<Rightarrow> bool" where
  "orderly b pfx res new \<longleftrightarrow>
     (\<forall>e \<in> set new. Bucket (command_of (fst e)) = b)
     \<and> only_last_throws new
     \<and> (\<forall>rq t. new \<noteq> [] \<and> last new = (rq, Some t) \<longrightarrow> res = Some (Error (pfx @ message_of t)))"

definition copy_request :: "S3Service \<Rightarrow> string \<Rightarrow> string \<Rightarrow> request" where
  "copy_request svc oldKey newName =
     Send (CopyObjectCommand (svc_bucketName svc) (svc_bucketName svc @ ''/'' @ oldKey)
             (rename_newKey oldKey newName))"

definition delete_request :: "S3Service \<Rightarrow> string \<Rightarrow> request" where
  "delete_request svc k = Send (DeleteObjectCommand (svc_bucketName svc) k)"

text \<open>The put of an upload (with the content its \<open>arrayBuffer()\<close> yields).\<close>

definition upload_request :: "S3Service \<Rightarrow> string \<Rightarrow> jsfile \<Rightarrow> request" where
  "upload_request svc path file =
     Send (PutObjectCommand (svc_bucketName svc) (upload_key file path)
             (case arrayBuffer file of Inr content \<Rightarrow> content | Inl e \<Rightarrow> [])
             (Some (file_type file)) (Some (file_size file)))"

definition demo_ui :: indexState where
  "demo_ui =
     \<lparr> isConnected = True, credentials = Some demo_credentials, currentPath = ''docs/'',
       files = demo_listing, selectedFile = None, selectedFiles = [], loading = False \<rparr>"

definition demo_upload :: "string \<Rightarrow> jsfile" where
  "demo_upload n =
     \<lparr> file_name = n, file_type = ''text/plain'', file_size = 2, arrayBuffer = Inr ''hi'' \<rparr>"

text \<open>
  The order a sort key and direction ask for between an entry and a later one of the
  same group: by name in the locale, by size in bytes, or by modification time;
  ascending, or descending.
\<close>

fun key_order ::
  "(string \<Rightarrow> string \<Rightarrow> int) \<Rightarrow> SortBy \<Rightarrow> SortOrder \<Rightarrow> FileItem \<Rightarrow> FileItem \<Rightarrow> bool" where
  "key_order lc ByName Asc a b \<longleftrightarrow> lc (name a) (name b) \<le> 0"
| "key_order lc ByName Desc a b \<longleftrightarrow> 0 \<le> lc (name a) (name b)"
| "key_order lc BySize Asc a b \<longleftrightarrow> fsize a \<le> fsize b"
| "key_order lc BySize Desc a b \<longleftrightarrow> fsize b \<le> fsize a"
| "key_order lc ByLastModified Asc a b \<longleftrightarrow> lastModified a \<le> lastModified b"
| "key_order lc ByLastModified Desc a b \<longleftrightarrow> lastModified b \<le> lastModified a"

definition demo_big :: FileItem where
  "demo_big =
     \<lparr> key = ''docs/b.bin'', name = ''b.bin'', fsize = 9, lastModified = 900,
       ftype = File, mimeType = Some ''application/octet-stream'', extension = Some ''bin'' \<rparr>"



section \<open>Facts about sorting\<close>

lemma set_insort_by: "set (insort_by cmp x xs) = insert x (set xs)"
  by (induction xs) auto

lemma set_sort_by: "set (sort_by cmp xs) = set xs"
  unfolding sort_by_def by (induction xs) (simp_all add: set_insort_by)

section \<open>Facts about the listing\<close>

lemma addFolders_items:
  "addFolders pf prefix cps acc w = (fs, w') \<Longrightarrow> f \<in> set fs \<Longrightarrow>
     f \<in> set acc \<or> (ftype f = Folder \<and> fsize f = 0 \<and> (\<exists>cp \<in> set cps. Prefix cp = Some (key f)))"
proof (induction cps arbitrary: acc w)
  case Nil
  then show ?case by simp
next
  case (Cons cp cps)
  show ?case
  proof (cases "Prefix cp")
    case None
    with Cons.prems have "addFolders pf prefix cps acc w = (fs, w')" by simp
    from Cons.IH [OF this Cons.prems(2)] show ?thesis by auto
  next
    case (Some p)
    let ?n = "replace_first_slash (slice p (length prefix))"
    show ?thesis
    proof (cases "p = [] \<or> ?n = []")
      case True
      with Some Cons.prems have "addFolders pf prefix cps acc w = (fs, w')"
        by (cases "p = []") (simp_all add: Let_def)
      from Cons.IH [OF this Cons.prems(2)] show ?thesis by auto
    next
      case False
      obtain now w1 where rc: "read_clock pf w = (now, w1)" by (cases "read_clock pf w")
      let ?item = "\<lparr> key = p, name = ?n, fsize = 0, lastModified = now, ftype = Folder,
                     mimeType = None, extension = None \<rparr>"
      from False Some rc Cons.prems
      have "addFolders pf prefix cps (acc @ [?item]) w1 = (fs, w')"
        by (simp add: Let_def)
      from Cons.IH [OF this Cons.prems(2)] Some show ?thesis by auto
    qed
  qed
qed

lemma addFiles_items:
  "addFiles pf prefix objs acc w = (fs, w') \<Longrightarrow> f \<in> set fs \<Longrightarrow>
     f \<in> set acc \<or> (ftype f = File \<and> (\<exists>ob \<in> set objs. Key ob = Some (key f)))"
proof (induction objs arbitrary: acc w)
  case Nil
  then show ?case by simp
next
  case (Cons ob objs)
  show ?case
  proof (cases "Key ob")
    case None
    with Cons.prems have "addFiles pf prefix objs acc w = (fs, w')" by simp
    from Cons.IH [OF this Cons.prems(2)] show ?thesis by auto
  next
    case (Some k)
    show ?thesis
    proof (cases "k \<noteq> [] \<and> k \<noteq> prefix \<and> \<not> endsWith k ''/''")
      case False
      with Some Cons.prems have "addFiles pf prefix objs acc w = (fs, w')"
        by (auto simp: Let_def)
      from Cons.IH [OF this Cons.prems(2)] show ?thesis by auto
    next
      case True
      obtain lm w1 where lm:
        "(case LastModified ob of Some t \<Rightarrow> (t, w) | None \<Rightarrow> read_clock pf w) = (lm, w1)"
        by (cases "case LastModified ob of Some t \<Rightarrow> (t, w) | None \<Rightarrow> read_clock pf w")
      let ?fileName = "slice k (length prefix)"
      let ?ext = "toLowerCase (last (split_str (CHR ''.'') ?fileName))"
      let ?item = "\<lparr> key = k, name = ?fileName,
                     fsize = (case Size ob of None \<Rightarrow> 0 | Some n \<Rightarrow> n),
                     lastModified = lm, ftype = File,
                     mimeType = Some (getMimeType ?ext), extension = Some ?ext \<rparr>"
      from True Some lm Cons.prems
      have "addFiles pf prefix objs (acc @ [?item]) w1 = (fs, w')"
        by (simp add: Let_def)
      from Cons.IH [OF this Cons.prems(2)] Some show ?thesis by auto
    qed
  qed
qed

lemma collectItems_items:
  assumes "collectItems pf prefix response w = (fs, w')" and "f \<in> set fs"
  shows "(ftype f = Folder \<and> fsize f = 0 \<and>
            (\<exists>cps cp. CommonPrefixes response = Some cps \<and> cp \<in> set cps \<and> Prefix cp = Some (key f)))
         \<or> (ftype f = File \<and>
            (\<exists>objs ob. Contents response = Some objs \<and> ob \<in> set objs \<and> Key ob = Some (key f)))"
proof -
  obtain files1 w1 where 1:
    "(case CommonPrefixes response of None \<Rightarrow> ([], w)
      | Some cps \<Rightarrow> addFolders pf prefix cps [] w) = (files1, w1)"
    by (cases "case CommonPrefixes response of None \<Rightarrow> ([], w)
      | Some cps \<Rightarrow> addFolders pf prefix cps [] w")
  have folders: "g \<in> set files1 \<Longrightarrow> ftype g = Folder \<and> fsize g = 0 \<and>
      (\<exists>cps cp. CommonPrefixes response = Some cps \<and> cp \<in> set cps \<and> Prefix cp = Some (key g))" for g
    using 1 addFolders_items [of pf prefix _ "[]" w files1 w1 g]
    by (cases "CommonPrefixes response") auto
  from assms(1) 1 have 2:
    "(case Contents response of None \<Rightarrow> (files1, w1)
      | Some objs \<Rightarrow> addFiles pf prefix objs files1 w1) = (fs, w')"
    by (simp add: collectItems_def)
  show ?thesis
  proof (cases "Contents response")
    case None
    with 2 assms(2) have "f \<in> set files1" by simp
    from folders [OF this] show ?thesis by simp
  next
    case (Some objs)
    with 2 have "addFiles pf prefix objs files1 w1 = (fs, w')" by simp
    from addFiles_items [OF this assms(2)] Some folders [of f] show ?thesis by auto
  qed
qed

lemma listFiles_items:
  assumes "listFiles pf svc prefix w = (Inr fs, w')" and "f \<in> set fs"
  shows "\<exists>response w1 w2.
     client_send pf svc (ListObjectsV2Command (svc_bucketName svc) (Some prefix) (Some ''/'') None) w
       = (Inr response, w1) \<and>
     ((ftype f = Folder \<and> fsize f = 0 \<and>
         (\<exists>cps cp. CommonPrefixes response = Some cps \<and> cp \<in> set cps \<and> Prefix cp = Some (key f)))
      \<or> (ftype f = File \<and>
         (\<exists>objs ob. Contents response = Some objs \<and> ob \<in> set objs \<and> Key ob = Some (key f))))"
proof -
  let ?cmd = "ListObjectsV2Command (svc_bucketName svc) (Some prefix) (Some ''/'') None"
  obtain r w1 where cs: "client_send pf svc ?cmd w = (r, w1)"
    by (cases "client_send pf svc ?cmd w")
  show ?thesis
  proof (cases r)
    case (Inl e)
    with cs assms(1) show ?thesis by (simp add: listFiles_def)
  next
    case (Inr response)
    obtain files w2 where ci: "collectItems pf prefix response w1 = (files, w2)"
      by (cases "collectItems pf prefix response w1")
    with cs Inr assms(1) have "fs = sort_by (listCompare (localeCompare pf)) files"
      by (simp add: listFiles_def)
    with assms(2) have "f \<in> set files" by (simp add: set_sort_by)
    from collectItems_items [OF ci this] cs Inr show ?thesis by auto
  qed
qed

section \<open>The listing: keys and sizes\<close>

text \<open>
  C6: every entry of kind folder that the listing returns has size 0, for every prefix
  and every response of the storage client. (The listing is the only place where
  entries are built.)
\<close>

theorem listFiles_folder_size_zero:
  "listFiles pf svc prefix w = (Inr fs, w') \<Longrightarrow> \<forall>f \<in> set fs. ftype f = Folder \<longrightarrow> fsize f = 0"
  using listFiles_items [of pf svc prefix w fs w'] by fastforce

theorem listFiles_folder_size_zero_witness:
  "fst (listFiles store_platform demo_service ''docs/'' (demo_world [])) = Inr demo_listing
   \<and> ftype (hd demo_listing) = Folder \<and> fsize (hd demo_listing) = 0"
proof -
  have run: "listFiles store_platform demo_service ''docs/'' (demo_world [])
     = (Inr demo_listing, snd (listFiles store_platform demo_service ''docs/'' (demo_world [])))"
    by code_simp
  from listFiles_folder_size_zero [OF run] have "ftype (hd demo_listing) = Folder \<longrightarrow> fsize (hd demo_listing) = 0"
    by (simp add: demo_listing_def)
  moreover have "ftype (hd demo_listing) = Folder" by (simp add: demo_listing_def)
  moreover have "fst (listFiles store_platform demo_service ''docs/'' (demo_world [])) = Inr demo_listing"
    by code_simp
  ultimately show ?thesis by simp
qed

text \<open>
  C1: when every key and every common prefix of the response to the listing command
  for prefix \<open>X\<close> begins with \<open>X\<close>, every entry that \<open>listFiles X\<close> returns, folder or
  file, has a key that begins with \<open>X\<close>.
\<close>

theorem listFiles_keys_within_prefix:
  assumes "client_send pf svc (list_command svc X) w = (Inr response, w1)"
    and "within_prefix X response"
    and "listFiles pf svc X w = (Inr fs, w')"
  shows "\<forall>f \<in> set fs. startsWith (key f) X"
proof
  fix f assume "f \<in> set fs"
  from listFiles_items [OF assms(3) this] assms(1)
  have "(\<exists>cps cp. CommonPrefixes response = Some cps \<and> cp \<in> set cps \<and> Prefix cp = Some (key f))
      \<or> (\<exists>objs ob. Contents response = Some objs \<and> ob \<in> set objs \<and> Key ob = Some (key f))"
    by (auto simp: list_command_def)
  with assms(2) show "startsWith (key f) X"
    by (auto simp: within_prefix_def list_all_iff split: option.splits)
qed

theorem listFiles_keys_within_prefix_witness:
  "fst (listFiles store_platform demo_service ''docs/'' (demo_world [])) = Inr demo_listing
   \<and> map key demo_listing = [''docs/img/'', ''docs/a.txt'']
   \<and> startsWith ''docs/img/'' ''docs/'' \<and> startsWith ''docs/a.txt'' ''docs/''"
proof -
  let ?w = "demo_world []"
  let ?r = "client_send store_platform demo_service (list_command demo_service ''docs/'') ?w"
  have 1: "?r = (Inr (fst_response ?r), snd ?r)" by code_simp
  have 2: "within_prefix ''docs/'' (fst_response ?r)" by code_simp
  have 3: "listFiles store_platform demo_service ''docs/'' ?w
     = (Inr demo_listing, snd (listFiles store_platform demo_service ''docs/'' ?w))"
    by code_simp
  from listFiles_keys_within_prefix [OF 1 2 3]
  have "startsWith ''docs/img/'' ''docs/'' \<and> startsWith ''docs/a.txt'' ''docs/''"
    by (simp add: demo_listing_def)
  moreover have "map key demo_listing = [''docs/img/'', ''docs/a.txt'']"
    by (simp add: demo_listing_def)
  moreover have "fst (listFiles store_platform demo_service ''docs/'' ?w) = Inr demo_listing"
    by code_simp
  ultimately show ?thesis by simp
qed

section \<open>Facts about comparators and the sorted lists\<close>

lemma sort_by_Nil: "sort_by cmp [] = []"
  by (simp add: sort_by_def)

lemma sort_by_Cons: "sort_by cmp (x # xs) = insort_by cmp x (sort_by cmp xs)"
  by (simp add: sort_by_def)

lemma consistent_total: "consistent cmp \<Longrightarrow> \<not> cmp a b \<le> 0 \<Longrightarrow> cmp b a \<le> 0"
  unfolding consistent_def by (metis linorder_not_le order_less_imp_le)

lemma consistent_trans: "consistent cmp \<Longrightarrow> cmp a b \<le> 0 \<Longrightarrow> cmp b c \<le> 0 \<Longrightarrow> cmp a c \<le> 0"
  unfolding consistent_def by blast

lemma sorted_insort_by:
  assumes "consistent cmp" and "sorted_wrt (\<lambda>a b. cmp a b \<le> 0) xs"
  shows "sorted_wrt (\<lambda>a b. cmp a b \<le> 0) (insort_by cmp x xs)"
  using assms(2)
proof (induction xs)
  case Nil
  then show ?case by simp
next
  case (Cons y ys)
  show ?case
  proof (cases "cmp x y \<le> 0")
    case True
    have "cmp x z \<le> 0" if "z \<in> set ys" for z
      using Cons.prems that consistent_trans [OF assms(1) True, of z] by auto
    with True Cons.prems show ?thesis by auto
  next
    case False
    from consistent_total [OF assms(1) False] have "cmp y x \<le> 0" .
    with False Cons show ?thesis by (auto simp: set_insort_by)
  qed
qed

lemma sorted_sort_by:
  "consistent cmp \<Longrightarrow> sorted_wrt (\<lambda>a b. cmp a b \<le> 0) (sort_by cmp xs)"
  by (induction xs) (simp_all add: sort_by_Nil sort_by_Cons sorted_insort_by)

text \<open>A comparator that puts one group first and compares by \<open>kc\<close> inside a group.\<close>

lemma insort_by_same_group:
  assumes "\<And>y. y \<in> set ys \<Longrightarrow> cmp x y = kc x y"
  shows "insort_by cmp x ys = insort_by kc x ys"
  using assms by (induction ys) auto

lemma insort_by_first_group:
  assumes "\<And>y. y \<in> set fs \<Longrightarrow> cmp x y = kc x y" and "\<And>y. y \<in> set gs \<Longrightarrow> cmp x y \<le> 0"
  shows "insort_by cmp x (fs @ gs) = insort_by kc x fs @ gs"
  using assms(1)
proof (induction fs)
  case Nil
  then show ?case using assms(2) by (cases gs) auto
next
  case (Cons f fs)
  then show ?case by auto
qed

lemma insort_by_second_group:
  assumes "\<And>y. y \<in> set fs \<Longrightarrow> \<not> cmp x y \<le> 0" and "\<And>y. y \<in> set gs \<Longrightarrow> cmp x y = kc x y"
  shows "insort_by cmp x (fs @ gs) = fs @ insort_by kc x gs"
  using assms(1)
proof (induction fs)
  case Nil
  then show ?case using insort_by_same_group [of gs cmp x kc] assms(2) by simp
next
  case (Cons f fs)
  then show ?case by auto
qed

lemma sort_by_groups:
  assumes same: "\<And>a b. g a = g b \<Longrightarrow> cmp a b = kc a b"
    and first: "\<And>a b. g a \<Longrightarrow> \<not> g b \<Longrightarrow> cmp a b \<le> 0"
    and second: "\<And>a b. \<not> g a \<Longrightarrow> g b \<Longrightarrow> \<not> cmp a b \<le> 0"
  shows "sort_by cmp xs = sort_by kc (filter g xs) @ sort_by kc (filter (\<lambda>x. \<not> g x) xs)"
proof (induction xs)
  case Nil
  then show ?case by (simp add: sort_by_Nil)
next
  case (Cons x xs)
  let ?F = "sort_by kc (filter g xs)" and ?G = "sort_by kc (filter (\<lambda>x. \<not> g x) xs)"
  have F: "y \<in> set ?F \<Longrightarrow> g y" and G: "y \<in> set ?G \<Longrightarrow> \<not> g y" for y
    by (simp_all add: set_sort_by)
  show ?case
  proof (cases "g x")
    case True
    have "insort_by cmp x (?F @ ?G) = insort_by kc x ?F @ ?G"
    proof (rule insort_by_first_group)
      fix y assume "y \<in> set ?F"
      from F [OF this] True show "cmp x y = kc x y" by (intro same) simp
    next
      fix y assume "y \<in> set ?G"
      from G [OF this] True show "cmp x y \<le> 0" by (intro first)
    qed
    with True Cons.IH show ?thesis by (simp add: sort_by_Cons)
  next
    case False
    have "insort_by cmp x (?F @ ?G) = ?F @ insort_by kc x ?G"
    proof (rule insort_by_second_group)
      fix y assume "y \<in> set ?F"
      from F [OF this] False show "\<not> cmp x y \<le> 0" by (intro second)
    next
      fix y assume "y \<in> set ?G"
      from G [OF this] False show "cmp x y = kc x y" by (intro same) simp
    qed
    with False Cons.IH show ?thesis by (simp add: sort_by_Cons)
  qed
qed

lemma ftype_eq_iff: "ftype a = ftype b \<longleftrightarrow> (ftype a = Folder) = (ftype b = Folder)"
  by (cases "ftype a"; cases "ftype b") simp_all

lemma displayCompare_groups:
  "sort_by (displayCompare lc sb so) xs =
     sort_by (keyCompare lc sb so) (filter isFolder xs)
     @ sort_by (keyCompare lc sb so) (filter (\<lambda>f. \<not> isFolder f) xs)"
proof (rule sort_by_groups)
  fix a b :: FileItem
  show "isFolder a = isFolder b \<Longrightarrow> displayCompare lc sb so a b = keyCompare lc sb so a b"
    using ftype_eq_iff [of a b] by (simp add: displayCompare_def isFolder_def)
  show "isFolder a \<Longrightarrow> \<not> isFolder b \<Longrightarrow> displayCompare lc sb so a b \<le> 0"
    by (simp add: displayCompare_def isFolder_def)
  show "\<not> isFolder a \<Longrightarrow> isFolder b \<Longrightarrow> \<not> displayCompare lc sb so a b \<le> 0"
    by (simp add: displayCompare_def isFolder_def)
qed

lemma listCompare_groups:
  "sort_by (listCompare lc) xs =
     sort_by (nameCompare lc) (filter isFolder xs)
     @ sort_by (nameCompare lc) (filter (\<lambda>f. \<not> isFolder f) xs)"
proof (rule sort_by_groups)
  fix a b :: FileItem
  show "isFolder a = isFolder b \<Longrightarrow> listCompare lc a b = nameCompare lc a b"
    using ftype_eq_iff [of a b] by (simp add: listCompare_def isFolder_def nameCompare_def)
  show "isFolder a \<Longrightarrow> \<not> isFolder b \<Longrightarrow> listCompare lc a b \<le> 0"
    by (simp add: listCompare_def isFolder_def)
  show "\<not> isFolder a \<Longrightarrow> isFolder b \<Longrightarrow> \<not> listCompare lc a b \<le> 0"
    by (simp add: listCompare_def isFolder_def)
qed

lemma consistent_on_field: "consistent cmp \<Longrightarrow> consistent (\<lambda>a b. cmp (f a) (f b))"
  unfolding consistent_def by blast

lemma consistent_difference: "consistent (\<lambda>a b. (f a :: int) - f b)"
  unfolding consistent_def by auto

lemma consistent_negated:
  assumes "consistent cmp"
  shows "consistent (\<lambda>a b. - cmp a b)"
proof -
  have anti: "cmp a b < 0 \<longleftrightarrow> 0 < cmp b a" for a b
    using assms unfolding consistent_def by blast
  have tr: "cmp a b \<le> 0 \<Longrightarrow> cmp b c \<le> 0 \<Longrightarrow> cmp a c \<le> 0" for a b c
    using assms unfolding consistent_def by blast
  have ge: "0 \<le> cmp a b \<longleftrightarrow> cmp b a \<le> 0" for a b
    using anti [of a b] anti [of b a] by linarith
  have tr': "0 \<le> cmp a b \<Longrightarrow> 0 \<le> cmp b c \<Longrightarrow> 0 \<le> cmp a c" for a b c
    using tr [of c b a] ge by blast
  have 1: "(- cmp a b < 0) \<longleftrightarrow> (0 < - cmp b a)" for a b
    using anti [of b a] by simp
  have 2: "- cmp a b \<le> 0 \<Longrightarrow> - cmp b c \<le> 0 \<Longrightarrow> - cmp a c \<le> 0" for a b c
    using tr' [of a b c] by simp
  show ?thesis unfolding consistent_def using 1 2 by blast
qed

lemma consistent_keyCompare:
  assumes "consistent lc"
  shows "consistent (keyCompare lc sb so)"
proof -
  let ?base = "\<lambda>a b. case sb of ByName \<Rightarrow> lc (name a) (name b)
                         | BySize \<Rightarrow> fsize a - fsize b
                         | ByLastModified \<Rightarrow> lastModified a - lastModified b"
  have base: "consistent ?base"
    by (cases sb) (simp_all add: consistent_on_field [OF assms] consistent_difference)
  show ?thesis
  proof (cases so)
    case Asc
    then have "keyCompare lc sb so = ?base"
      by (intro ext) (simp add: keyCompare_def Let_def)
    with base show ?thesis by simp
  next
    case Desc
    then have "keyCompare lc sb so = (\<lambda>a b. - ?base a b)"
      by (intro ext) (simp add: keyCompare_def Let_def)
    with consistent_negated [OF base] show ?thesis by simp
  qed
qed

lemma codeunit_compare_anti: "codeunit_compare a b < 0 \<longleftrightarrow> 0 < codeunit_compare b a"
  by (induction a b rule: codeunit_compare.induct) auto

lemma codeunit_compare_trans:
  "codeunit_compare a b \<le> 0 \<Longrightarrow> codeunit_compare b c \<le> 0 \<Longrightarrow> codeunit_compare a c \<le> 0"
proof (induction a b arbitrary: c rule: codeunit_compare.induct)
  case 1
  then show ?case by simp
next
  case (2 y ys)
  then show ?case by (cases c) simp_all
next
  case (3 x xs)
  then show ?case by simp
next
  case (4 x xs y ys)
  show ?case
  proof (cases c)
    case Nil
    with 4 show ?thesis by simp
  next
    case (Cons z zs)
    define nx ny nz where "nx = (of_char x :: nat)" and "ny = (of_char y :: nat)"
      and "nz = (of_char z :: nat)"
    from "4.prems"(1) have xy: "nx \<le> ny"
      unfolding nx_def ny_def by (simp split: if_splits)
    from "4.prems"(2) Cons have yz: "ny \<le> nz"
      unfolding ny_def nz_def by (simp split: if_splits)
    show ?thesis
    proof (cases "nx < nz")
      case True
      with Cons show ?thesis unfolding nx_def nz_def by simp
    next
      case False
      with xy yz have "nx = ny" "ny = nz" by linarith+
      then have eq: "x = y" "y = z" unfolding nx_def ny_def nz_def by simp_all
      with "4.prems" Cons have "codeunit_compare xs ys \<le> 0" "codeunit_compare ys zs \<le> 0"
        by simp_all
      with "4.IH" [of zs] eq have "codeunit_compare xs zs \<le> 0" by simp
      with eq Cons show ?thesis by simp
    qed
  qed
qed

lemma consistent_codeunit_compare: "consistent codeunit_compare"
  unfolding consistent_def
proof (intro conjI allI impI)
  fix a b c
  show "codeunit_compare a b < 0 \<longleftrightarrow> 0 < codeunit_compare b a"
    by (rule codeunit_compare_anti)
  show "codeunit_compare a b \<le> 0 \<Longrightarrow> codeunit_compare b c \<le> 0 \<Longrightarrow> codeunit_compare a c \<le> 0"
    by (rule codeunit_compare_trans)
qed


lemma ordered_sort_by: "consistent cmp \<Longrightarrow> ordered_by cmp (sort_by cmp xs)"
  by (simp add: ordered_by_def sorted_sort_by)

lemma folders_first_append:
  assumes "\<And>f. f \<in> set fs \<Longrightarrow> ftype f = Folder" and "\<And>g. g \<in> set gs \<Longrightarrow> ftype g \<noteq> Folder"
  shows "folders_first (fs @ gs)"
  unfolding folders_first_def
proof (intro allI impI)
  fix j i
  assume j: "j < length (fs @ gs)" and i: "i < j" and fj: "ftype ((fs @ gs) ! j) = Folder"
  have "j < length fs"
  proof (rule ccontr)
    assume "\<not> j < length fs"
    with j have "(fs @ gs) ! j = gs ! (j - length fs)" "j - length fs < length gs"
      by (simp_all add: nth_append)
    then have "(fs @ gs) ! j \<in> set gs" by simp
    from assms(2) [OF this] fj show False by simp
  qed
  with i have "(fs @ gs) ! i = fs ! i" "i < length fs" by (simp_all add: nth_append)
  then have "(fs @ gs) ! i \<in> set fs" by simp
  from assms(1) [OF this] show "ftype ((fs @ gs) ! i) = Folder" .
qed

lemma filter_groups:
  assumes "\<And>f. f \<in> set fs \<Longrightarrow> P f" and "\<And>g. g \<in> set gs \<Longrightarrow> \<not> P g"
  shows "filter P (fs @ gs) = fs" and "filter (\<lambda>x. \<not> P x) (fs @ gs) = gs"
  using assms by (simp_all add: filter_id_conv filter_empty_conv)

text \<open>What a sort that puts folders first looks like.\<close>

lemma folders_first_sorted:
  assumes split: "xs = sort_by kc (filter isFolder ys) @ sort_by kc (filter (\<lambda>f. \<not> isFolder f) ys)"
  shows "folders_first xs"
    and "filter isFolder xs = sort_by kc (filter isFolder ys)"
    and "filter (\<lambda>f. \<not> isFolder f) xs = sort_by kc (filter (\<lambda>f. \<not> isFolder f) ys)"
proof -
  let ?F = "sort_by kc (filter isFolder ys)" and ?G = "sort_by kc (filter (\<lambda>f. \<not> isFolder f) ys)"
  have F: "f \<in> set ?F \<Longrightarrow> isFolder f" and G: "g \<in> set ?G \<Longrightarrow> \<not> isFolder g" for f g
    by (simp_all add: set_sort_by)
  show "folders_first xs"
    unfolding split
  proof (rule folders_first_append)
    fix f assume "f \<in> set ?F"
    from F [OF this] show "ftype f = Folder" by (simp only: isFolder_def)
  next
    fix g assume "g \<in> set ?G"
    from G [OF this] show "ftype g \<noteq> Folder" unfolding isFolder_def .
  qed
  show "filter isFolder xs = ?F"
    unfolding split by (rule filter_groups(1)) (fact F, fact G)
  show "filter (\<lambda>f. \<not> isFolder f) xs = ?G"
    unfolding split by (rule filter_groups(2)) (fact F, fact G)
qed

lemma shown_groups:
  "filteredAndSortedFiles lc fs searchTerm filterType sortBy sortOrder =
     sort_by (keyCompare lc sortBy sortOrder) (filter isFolder (filteredFiles fs searchTerm filterType))
     @ sort_by (keyCompare lc sortBy sortOrder)
         (filter (\<lambda>f. \<not> isFolder f) (filteredFiles fs searchTerm filterType))"
  unfolding filteredAndSortedFiles_def by (rule displayCompare_groups)

lemma listFiles_sorted:
  assumes "listFiles pf svc prefix w = (Inr listed, w')"
  shows "\<exists>items. listed = sort_by (listCompare (localeCompare pf)) items"
proof -
  let ?cmd = "ListObjectsV2Command (svc_bucketName svc) (Some prefix) (Some ''/'') None"
  obtain r w1 where cs: "client_send pf svc ?cmd w = (r, w1)"
    by (cases "client_send pf svc ?cmd w")
  show ?thesis
  proof (cases r)
    case (Inl e)
    with cs assms show ?thesis by (simp add: listFiles_def)
  next
    case (Inr response)
    obtain items w2 where "collectItems pf prefix response w1 = (items, w2)"
      by (cases "collectItems pf prefix response w1")
    with cs Inr assms show ?thesis by (auto simp: listFiles_def)
  qed
qed

lemma filteredFiles_subset: "set (filteredFiles fs searchTerm filterType) \<subseteq> set fs"
  by (auto simp: filteredFiles_def Let_def)

lemma filteredFiles_no_folder:
  "filterType \<noteq> All \<Longrightarrow> f \<in> set (filteredFiles fs searchTerm filterType) \<Longrightarrow> ftype f \<noteq> Folder"
  by (auto simp: filteredFiles_def Let_def typeFilter_def split: if_splits)

lemma includes_str_Nil: "includes_str s []"
  by (cases s) (simp_all add: startsWith_def)

lemma filteredFiles_keeps_match:
  "f \<in> set fs \<Longrightarrow> name_matches searchTerm f \<Longrightarrow> f \<in> set (filteredFiles fs searchTerm All)"
  by (simp add: filteredFiles_def name_matches_def)


section \<open>The displayed list\<close>

text \<open>
  C10: under every type filter other than \<open>all\<close> the displayed list has no folder
  entry; under \<open>all\<close>, a folder of the input whose name matches the search term
  (case-insensitively) is displayed, whatever the term.
\<close>

theorem type_filter_drops_folders:
  "(filterType \<noteq> All \<longrightarrow>
      (\<forall>f \<in> set (filteredAndSortedFiles lc fs searchTerm filterType sortBy sortOrder).
         ftype f \<noteq> Folder))
   \<and> (\<forall>f \<in> set fs. ftype f = Folder \<and> name_matches searchTerm f \<longrightarrow>
         f \<in> set (filteredAndSortedFiles lc fs searchTerm All sortBy sortOrder))"
  by (auto simp: filteredAndSortedFiles_def set_sort_by filteredFiles_keeps_match
           dest: filteredFiles_no_folder)

theorem type_filter_drops_folders_witness:
  "Code \<noteq> All
   \<and> filteredAndSortedFiles codeunit_compare demo_listing [] Code ByName Asc = [demo_listing ! 1]
   \<and> ftype (demo_listing ! 1) \<noteq> Folder
   \<and> ftype (demo_listing ! 0) = Folder \<and> name_matches ''IM'' (demo_listing ! 0)
   \<and> filteredAndSortedFiles codeunit_compare demo_listing ''IM'' All ByName Asc = [demo_listing ! 0]"
proof -
  have a: "filteredAndSortedFiles codeunit_compare demo_listing [] Code ByName Asc = [demo_listing ! 1]"
    by code_simp
  have b: "filteredAndSortedFiles codeunit_compare demo_listing ''IM'' All ByName Asc = [demo_listing ! 0]"
    by code_simp
  have c: "ftype (demo_listing ! 0) = Folder" "name_matches ''IM'' (demo_listing ! 0)"
    by code_simp+
  have d: "demo_listing ! 0 \<in> set demo_listing" by (simp add: demo_listing_def)
  have e: "Code \<noteq> All" by simp
  from type_filter_drops_folders [of Code codeunit_compare demo_listing "[]" ByName Asc] a
  have f: "ftype (demo_listing ! 1) \<noteq> Folder" by simp
  from type_filter_drops_folders [of All codeunit_compare demo_listing "''IM''" ByName Asc] c d
  have "demo_listing ! 0 \<in> set (filteredAndSortedFiles codeunit_compare demo_listing ''IM'' All ByName Asc)"
    by blast
  from e a f c b show ?thesis by blast
qed

lemma count_list_insort_by: "count_list (insort_by cmp x xs) y = count_list (x # xs) y"
  by (induction xs) auto

lemma count_list_sort_by: "count_list (sort_by cmp xs) y = count_list xs y"
  by (induction xs) (simp_all add: sort_by_Nil sort_by_Cons count_list_insort_by)

lemma key_order_iff: "key_order lc sb so a b \<longleftrightarrow> keyCompare lc sb so a b \<le> 0"
  by (cases sb; cases so) (simp_all add: keyCompare_def)

lemma sorted_by_key_order:
  assumes "consistent lc"
  shows "sorted_wrt (key_order lc sb so) (sort_by (keyCompare lc sb so) xs)"
proof -
  have "key_order lc sb so = (\<lambda>a b. keyCompare lc sb so a b \<le> 0)"
    by (intro ext) (rule key_order_iff)
  with sorted_sort_by [OF consistent_keyCompare [OF assms], of sb so xs] show ?thesis
    by simp
qed

text \<open>
  C9: for every input list, search term, type filter, sort key and sort order, the
  displayed list holds the entries that pass the filters, every folder entry before
  every file entry; inside the folder group and inside the file group the entries
  stand in the order of the chosen key (name, size or modification time) and direction
  (ascending or descending), and key and direction decide nothing else: the list is
  the sorted folders followed by the sorted files. The listing itself returns folders
  before files, each group in the order of the names.
  (\<open>localeCompare\<close> is taken to be a consistent comparator.)
\<close>

theorem folders_before_files:
  assumes "consistent (localeCompare pf)"
  shows
    "(let lc = localeCompare pf;
          shown = filteredAndSortedFiles lc fs searchTerm filterType sortBy sortOrder;
          visible = filteredFiles fs searchTerm filterType
      in folders_first shown
         \<and> (\<forall>x. count_list shown x = count_list visible x)
         \<and> sorted_wrt (key_order lc sortBy sortOrder) (filter isFolder shown)
         \<and> sorted_wrt (key_order lc sortBy sortOrder) (filter (\<lambda>f. \<not> isFolder f) shown)
         \<and> shown = sort_by (keyCompare lc sortBy sortOrder) (filter isFolder visible)
                   @ sort_by (keyCompare lc sortBy sortOrder) (filter (\<lambda>f. \<not> isFolder f) visible))
     \<and> (\<forall>listed w'. listFiles pf svc prefix w = (Inr listed, w') \<longrightarrow>
           folders_first listed
           \<and> ordered_by (nameCompare (localeCompare pf)) (filter isFolder listed)
           \<and> ordered_by (nameCompare (localeCompare pf)) (filter (\<lambda>f. \<not> isFolder f) listed))"
proof -
  let ?lc = "localeCompare pf"
  let ?kc = "keyCompare ?lc sortBy sortOrder"
  let ?shown = "filteredAndSortedFiles ?lc fs searchTerm filterType sortBy sortOrder"
  let ?visible = "filteredFiles fs searchTerm filterType"
  have nc: "consistent (nameCompare ?lc)"
    unfolding nameCompare_def by (rule consistent_on_field [OF assms])
  note shown = folders_first_sorted [OF shown_groups [of ?lc fs searchTerm filterType sortBy sortOrder]]
  have display: "folders_first ?shown
     \<and> (\<forall>x. count_list ?shown x = count_list ?visible x)
     \<and> sorted_wrt (key_order ?lc sortBy sortOrder) (filter isFolder ?shown)
     \<and> sorted_wrt (key_order ?lc sortBy sortOrder) (filter (\<lambda>f. \<not> isFolder f) ?shown)
     \<and> ?shown = sort_by ?kc (filter isFolder ?visible) @ sort_by ?kc (filter (\<lambda>f. \<not> isFolder f) ?visible)"
  proof (intro conjI)
    show "folders_first ?shown" by (rule shown(1))
    show "\<forall>x. count_list ?shown x = count_list ?visible x"
      by (simp add: filteredAndSortedFiles_def count_list_sort_by)
    show "?shown = sort_by ?kc (filter isFolder ?visible) @ sort_by ?kc (filter (\<lambda>f. \<not> isFolder f) ?visible)"
      by (rule shown_groups)
    show "sorted_wrt (key_order ?lc sortBy sortOrder) (filter isFolder ?shown)"
      unfolding shown(2) by (rule sorted_by_key_order [OF assms])
    show "sorted_wrt (key_order ?lc sortBy sortOrder) (filter (\<lambda>f. \<not> isFolder f) ?shown)"
      unfolding shown(3) by (rule sorted_by_key_order [OF assms])
  qed
  have listing: "folders_first listed
       \<and> ordered_by (nameCompare ?lc) (filter isFolder listed)
       \<and> ordered_by (nameCompare ?lc) (filter (\<lambda>f. \<not> isFolder f) listed)"
    if "listFiles pf svc prefix w = (Inr listed, w')" for listed w'
  proof -
    from listFiles_sorted [OF that] obtain items
      where "listed = sort_by (listCompare ?lc) items" by blast
    then have "listed = sort_by (nameCompare ?lc) (filter isFolder items)
                 @ sort_by (nameCompare ?lc) (filter (\<lambda>f. \<not> isFolder f) items)"
      by (simp only: listCompare_groups)
    note parts = folders_first_sorted [OF this]
    show ?thesis
    proof (intro conjI)
      show "folders_first listed" by (rule parts(1))
      show "ordered_by (nameCompare ?lc) (filter isFolder listed)"
        unfolding parts(2) by (rule ordered_sort_by [OF nc])
      show "ordered_by (nameCompare ?lc) (filter (\<lambda>f. \<not> isFolder f) listed)"
        unfolding parts(3) by (rule ordered_sort_by [OF nc])
    qed
  qed
  from display listing show ?thesis unfolding Let_def by blast
qed

theorem folders_before_files_witness:
  "consistent (localeCompare store_platform)
   \<and> filteredAndSortedFiles (localeCompare store_platform)
        [demo_listing ! 1, demo_listing ! 0, demo_big] [] All BySize Desc
       = [demo_listing ! 0, demo_big, demo_listing ! 1]
   \<and> filteredAndSortedFiles (localeCompare store_platform)
        [demo_big, demo_listing ! 0, demo_listing ! 1] [] All BySize Asc
       = [demo_listing ! 0, demo_listing ! 1, demo_big]
   \<and> folders_first [demo_listing ! 0, demo_big, demo_listing ! 1]
   \<and> key_order (localeCompare store_platform) BySize Desc demo_big (demo_listing ! 1)
   \<and> fsize (demo_listing ! 1) < fsize demo_big
   \<and> listFiles store_platform demo_service ''docs/'' (demo_world [])
       = (Inr demo_listing, snd (listFiles store_platform demo_service ''docs/'' (demo_world [])))
   \<and> ordered_by (nameCompare (localeCompare store_platform)) (filter isFolder demo_listing)"
proof -
  let ?lc = "localeCompare store_platform"
  let ?in = "[demo_listing ! 1, demo_listing ! 0, demo_big]"
  let ?out = "[demo_listing ! 0, demo_big, demo_listing ! 1]"
  have c: "consistent ?lc"
    by (simp add: store_platform_def consistent_codeunit_compare)
  have desc: "filteredAndSortedFiles ?lc ?in [] All BySize Desc = ?out"
    by code_simp
  have asc: "filteredAndSortedFiles ?lc [demo_big, demo_listing ! 0, demo_listing ! 1] [] All
               BySize Asc = [demo_listing ! 0, demo_listing ! 1, demo_big]"
    by code_simp
  have files: "filter (\<lambda>f. \<not> isFolder f) ?out = [demo_big, demo_listing ! 1]"
    by code_simp
  have sizes: "fsize (demo_listing ! 1) < fsize demo_big" by code_simp
  have listed: "listFiles store_platform demo_service ''docs/'' (demo_world [])
       = (Inr demo_listing, snd (listFiles store_platform demo_service ''docs/'' (demo_world [])))"
    by code_simp
  note inst = folders_before_files [OF c, where fs = ?in and searchTerm = "[]"
      and filterType = All and sortBy = BySize and sortOrder = Desc and svc = demo_service
      and prefix = "''docs/''" and w = "demo_world []"]
  from inst have "folders_first (filteredAndSortedFiles ?lc ?in [] All BySize Desc)"
    unfolding Let_def by blast
  then have first: "folders_first ?out" by (simp only: desc)
  from inst have "sorted_wrt (key_order ?lc BySize Desc)
      (filter (\<lambda>f. \<not> isFolder f) (filteredAndSortedFiles ?lc ?in [] All BySize Desc))"
    unfolding Let_def by blast
  then have "sorted_wrt (key_order ?lc BySize Desc) [demo_big, demo_listing ! 1]"
    by (simp only: desc files)
  then have ko: "key_order ?lc BySize Desc demo_big (demo_listing ! 1)"
    by (simp only: sorted_wrt.simps list.set ball_simps insert_iff empty_iff simp_thms)
  from inst listed
  have "ordered_by (nameCompare ?lc) (filter isFolder demo_listing)"
    by blast
  with c desc asc first ko sizes listed show ?thesis by blast
qed

section \<open>The rename dialog\<close>










section \<open>The journal of requests\<close>

lemma issued_append: "journal w' = journal w @ new \<Longrightarrow> issued w w' = new"
  by (simp add: issued_def)

lemma client_send_journal:
  "client_send pf svc cmd w = (r, w1) \<Longrightarrow> journal w1 = journal w @ [(Send cmd, thrown_of r)]"
  by (auto simp: client_send_def split: prod.splits)

lemma client_sign_journal:
  "client_sign pf svc cmd e w = (r, w1) \<Longrightarrow> journal w1 = journal w @ [(Sign cmd e, thrown_of r)]"
  by (auto simp: client_sign_def split: prod.splits)

lemma read_clock_journal: "read_clock pf w = (t, w1) \<Longrightarrow> journal w1 = journal w"
  by (auto simp: read_clock_def split: prod.splits)

lemma addFolders_journal:
  "addFolders pf prefix cps acc w = (fs, w') \<Longrightarrow> journal w' = journal w"
proof (induction cps arbitrary: acc w)
  case Nil
  then show ?case by simp
next
  case (Cons cp cps)
  show ?case
  proof (cases "Prefix cp")
    case None
    with Cons.prems Cons.IH show ?thesis by simp
  next
    case (Some p)
    let ?n = "replace_first_slash (slice p (length prefix))"
    show ?thesis
    proof (cases "p = [] \<or> ?n = []")
      case True
      with Some Cons.prems have "addFolders pf prefix cps acc w = (fs, w')"
        by (cases "p = []") (simp_all add: Let_def)
      with Cons.IH show ?thesis by simp
    next
      case False
      obtain now w1 where rc: "read_clock pf w = (now, w1)" by (cases "read_clock pf w")
      from False Some rc Cons.prems
      have "\<exists>acc'. addFolders pf prefix cps acc' w1 = (fs, w')"
        by (auto simp: Let_def)
      with Cons.IH have "journal w' = journal w1" by blast
      with read_clock_journal [OF rc] show ?thesis by simp
    qed
  qed
qed

lemma addFiles_journal:
  "addFiles pf prefix objs acc w = (fs, w') \<Longrightarrow> journal w' = journal w"
proof (induction objs arbitrary: acc w)
  case Nil
  then show ?case by simp
next
  case (Cons ob objs)
  show ?case
  proof (cases "Key ob")
    case None
    with Cons.prems Cons.IH show ?thesis by simp
  next
    case (Some k)
    show ?thesis
    proof (cases "k \<noteq> [] \<and> k \<noteq> prefix \<and> \<not> endsWith k ''/''")
      case False
      with Some Cons.prems have "addFiles pf prefix objs acc w = (fs, w')"
        by (auto simp: Let_def)
      with Cons.IH show ?thesis by simp
    next
      case True
      obtain lm w1 where lm:
        "(case LastModified ob of Some t \<Rightarrow> (t, w) | None \<Rightarrow> read_clock pf w) = (lm, w1)"
        by (cases "case LastModified ob of Some t \<Rightarrow> (t, w) | None \<Rightarrow> read_clock pf w")
      then have j1: "journal w1 = journal w"
        by (cases "LastModified ob") (auto dest: read_clock_journal)
      from True Some lm Cons.prems
      have "\<exists>acc'. addFiles pf prefix objs acc' w1 = (fs, w')"
        by (auto simp: Let_def)
      with Cons.IH have "journal w' = journal w1" by blast
      with j1 show ?thesis by simp
    qed
  qed
qed

lemma collectItems_journal:
  assumes "collectItems pf prefix response w = (fs, w')"
  shows "journal w' = journal w"
proof -
  obtain files1 w1 where 1:
    "(case CommonPrefixes response of None \<Rightarrow> ([], w)
      | Some cps \<Rightarrow> addFolders pf prefix cps [] w) = (files1, w1)"
    by (cases "case CommonPrefixes response of None \<Rightarrow> ([], w)
      | Some cps \<Rightarrow> addFolders pf prefix cps [] w")
  then have j1: "journal w1 = journal w"
    by (cases "CommonPrefixes response") (auto dest: addFolders_journal)
  from assms 1 have
    "(case Contents response of None \<Rightarrow> (files1, w1)
      | Some objs \<Rightarrow> addFiles pf prefix objs files1 w1) = (fs, w')"
    by (simp add: collectItems_def)
  then have "journal w' = journal w1"
    by (cases "Contents response") (auto dest: addFiles_journal)
  with j1 show ?thesis by simp
qed

lemma single_requestI:
  "new = [(rq, out)] \<Longrightarrow> (\<And>t. out = Some t \<Longrightarrow> res = Some (Error (pfx @ message_of t)))
     \<Longrightarrow> single_request rq pfx res new"
  by (cases out) (auto simp: single_request_def)

lemma single_request_shape: "single_request rq pfx res new \<Longrightarrow> \<exists>out. new = [(rq, out)]"
  by (auto simp: single_request_def)

lemma testConnection_trace:
  assumes "testConnection pf svc w = (r, w')"
  shows "journal w' = journal w @ issued w w'"
    and "single_request (Send (ListObjectsV2Command (svc_bucketName svc) None None (Some 1)))
           ''Connection failed: '' (thrown_of r) (issued w w')"
proof -
  let ?cmd = "ListObjectsV2Command (svc_bucketName svc) None None (Some 1)"
  obtain r0 w1 where cs: "client_send pf svc ?cmd w = (r0, w1)"
    by (cases "client_send pf svc ?cmd w")
  from assms cs have w': "w' = w1" by (cases r0) (simp_all add: testConnection_def)
  from client_send_journal [OF cs] w' have j: "journal w' = journal w @ [(Send ?cmd, thrown_of r0)]"
    by simp
  then show "journal w' = journal w @ issued w w'" by (simp add: issued_append)
  show "single_request (Send ?cmd) ''Connection failed: '' (thrown_of r) (issued w w')"
  proof (rule single_requestI)
    show "issued w w' = [(Send ?cmd, thrown_of r0)]" using j by (rule issued_append)
    fix t assume "thrown_of r0 = Some t"
    then have "r0 = Inl t" by (cases r0) simp_all
    with assms cs show "thrown_of r = Some (Error (''Connection failed: '' @ message_of t))"
      by (auto simp: testConnection_def)
  qed
qed

lemma listFiles_trace:
  assumes "listFiles pf svc prefix w = (r, w')"
  shows "journal w' = journal w @ issued w w'"
    and "single_request (Send (list_command svc prefix)) ''Failed to list files: ''
           (thrown_of r) (issued w w')"
    and "issued w w' = [(Send (list_command svc prefix), None)] \<or> (\<exists>e. r = Inl e)"
proof -
  let ?cmd = "list_command svc prefix"
  obtain r0 w1 where cs: "client_send pf svc ?cmd w = (r0, w1)"
    by (cases "client_send pf svc ?cmd w")
  have j: "journal w' = journal w @ [(Send ?cmd, thrown_of r0)]"
  proof (cases r0)
    case (Inl e)
    with assms cs have "w' = w1" by (simp add: listFiles_def list_command_def)
    with client_send_journal [OF cs] show ?thesis by simp
  next
    case (Inr response)
    obtain items w2 where ci: "collectItems pf prefix response w1 = (items, w2)"
      by (cases "collectItems pf prefix response w1")
    with assms cs Inr have "w' = w2" by (simp add: listFiles_def list_command_def)
    with collectItems_journal [OF ci] client_send_journal [OF cs] show ?thesis by simp
  qed
  then show "journal w' = journal w @ issued w w'" by (simp add: issued_append)
  show "single_request (Send ?cmd) ''Failed to list files: '' (thrown_of r) (issued w w')"
  proof (rule single_requestI)
    show "issued w w' = [(Send ?cmd, thrown_of r0)]" using j by (rule issued_append)
    fix t assume "thrown_of r0 = Some t"
    then have "r0 = Inl t" by (cases r0) simp_all
    with assms cs show "thrown_of r = Some (Error (''Failed to list files: '' @ message_of t))"
      by (auto simp: listFiles_def list_command_def)
  qed
  show "issued w w' = [(Send ?cmd, None)] \<or> (\<exists>e. r = Inl e)"
  proof (cases r0)
    case (Inl e)
    with assms cs show ?thesis by (auto simp: listFiles_def list_command_def)
  next
    case (Inr response)
    with issued_append [OF j] show ?thesis by simp
  qed
qed

lemma uploadFile_trace:
  assumes "uploadFile pf svc file path w = (r, w')"
  shows "journal w' = journal w @ issued w w'"
    and "(\<exists>e. arrayBuffer file = Inl e \<and> issued w w' = []
              \<and> r = Inl (Error (''Upload failed: '' @ message_of e)))
         \<or> (\<exists>content. arrayBuffer file = Inr content \<and>
               single_request
                 (Send (PutObjectCommand (svc_bucketName svc) (upload_key file path) content
                          (Some (file_type file)) (Some (file_size file))))
                 ''Upload failed: '' (thrown_of r) (issued w w'))"
proof -
  show "journal w' = journal w @ issued w w'"
    using assms
    by (auto simp: uploadFile_def issued_def split: sum.splits prod.splits
             dest!: client_send_journal)
  show "(\<exists>e. arrayBuffer file = Inl e \<and> issued w w' = []
              \<and> r = Inl (Error (''Upload failed: '' @ message_of e)))
         \<or> (\<exists>content. arrayBuffer file = Inr content \<and>
               single_request
                 (Send (PutObjectCommand (svc_bucketName svc) (upload_key file path) content
                          (Some (file_type file)) (Some (file_size file))))
                 ''Upload failed: '' (thrown_of r) (issued w w'))"
  proof (cases "arrayBuffer file")
    case (Inl e)
    with assms show ?thesis by (auto simp: uploadFile_def issued_def)
  next
    case (Inr content)
    let ?cmd = "PutObjectCommand (svc_bucketName svc) (upload_key file path) content
                  (Some (file_type file)) (Some (file_size file))"
    obtain r0 w1 where cs: "client_send pf svc ?cmd w = (r0, w1)"
      by (cases "client_send pf svc ?cmd w")
    from assms cs Inr have w': "w' = w1" by (cases r0) (simp_all add: uploadFile_def)
    have "single_request (Send ?cmd) ''Upload failed: '' (thrown_of r) (issued w w')"
    proof (rule single_requestI)
      show "issued w w' = [(Send ?cmd, thrown_of r0)]"
        using client_send_journal [OF cs] w' by (simp add: issued_def)
      fix t assume "thrown_of r0 = Some t"
      then have "r0 = Inl t" by (cases r0) simp_all
      with assms cs Inr show "thrown_of r = Some (Error (''Upload failed: '' @ message_of t))"
        by (auto simp: uploadFile_def)
    qed
    with Inr show ?thesis by simp
  qed
qed

lemma deleteFile_trace:
  assumes "deleteFile pf svc k w = (r, w')"
  shows "journal w' = journal w @ issued w w'"
    and "single_request (Send (DeleteObjectCommand (svc_bucketName svc) k))
           ''Delete failed: '' (thrown_of r) (issued w w')"
    and "issued w w' = [(Send (DeleteObjectCommand (svc_bucketName svc) k), None)] \<and> r = Inr ()
         \<or> (\<exists>t. issued w w' = [(Send (DeleteObjectCommand (svc_bucketName svc) k), Some t)]
                \<and> r = Inl (Error (''Delete failed: '' @ message_of t)))"
proof -
  let ?cmd = "DeleteObjectCommand (svc_bucketName svc) k"
  obtain r0 w1 where cs: "client_send pf svc ?cmd w = (r0, w1)"
    by (cases "client_send pf svc ?cmd w")
  from assms cs have w': "w' = w1" by (cases r0) (simp_all add: deleteFile_def)
  from client_send_journal [OF cs] w' have j: "journal w' = journal w @ [(Send ?cmd, thrown_of r0)]"
    by simp
  then show "journal w' = journal w @ issued w w'" by (simp add: issued_append)
  show "single_request (Send ?cmd) ''Delete failed: '' (thrown_of r) (issued w w')"
  proof (rule single_requestI)
    show "issued w w' = [(Send ?cmd, thrown_of r0)]" using j by (rule issued_append)
    fix t assume "thrown_of r0 = Some t"
    then have "r0 = Inl t" by (cases r0) simp_all
    with assms cs show "thrown_of r = Some (Error (''Delete failed: '' @ message_of t))"
      by (auto simp: deleteFile_def)
  qed
  show "issued w w' = [(Send ?cmd, None)] \<and> r = Inr ()
         \<or> (\<exists>t. issued w w' = [(Send ?cmd, Some t)]
                \<and> r = Inl (Error (''Delete failed: '' @ message_of t)))"
    using assms cs issued_append [OF j] by (cases r0) (auto simp: deleteFile_def)
qed

lemma createFolder_trace:
  assumes "createFolder pf svc folderPath w = (r, w')"
  shows "journal w' = journal w @ issued w w'"
    and "single_request (Send (PutObjectCommand (svc_bucketName svc) folderPath [] None None))
           ''Create folder failed: '' (thrown_of r) (issued w w')"
proof -
  let ?cmd = "PutObjectCommand (svc_bucketName svc) folderPath [] None None"
  obtain r0 w1 where cs: "client_send pf svc ?cmd w = (r0, w1)"
    by (cases "client_send pf svc ?cmd w")
  from assms cs have w': "w' = w1" by (cases r0) (simp_all add: createFolder_def)
  from client_send_journal [OF cs] w' have j: "journal w' = journal w @ [(Send ?cmd, thrown_of r0)]"
    by simp
  then show "journal w' = journal w @ issued w w'" by (simp add: issued_append)
  show "single_request (Send ?cmd) ''Create folder failed: '' (thrown_of r) (issued w w')"
  proof (rule single_requestI)
    show "issued w w' = [(Send ?cmd, thrown_of r0)]" using j by (rule issued_append)
    fix t assume "thrown_of r0 = Some t"
    then have "r0 = Inl t" by (cases r0) simp_all
    with assms cs show "thrown_of r = Some (Error (''Create folder failed: '' @ message_of t))"
      by (auto simp: createFolder_def)
  qed
qed

lemma downloadFile_trace:
  assumes "downloadFile pf svc k fileName w = (r, w')"
  shows "journal w' = journal w @ issued w w'"
    and "single_request (Send (GetObjectCommand (svc_bucketName svc) k))
           ''Download failed: '' (thrown_of r) (issued w w')"
proof -
  let ?cmd = "GetObjectCommand (svc_bucketName svc) k"
  obtain r0 w1 where cs: "client_send pf svc ?cmd w = (r0, w1)"
    by (cases "client_send pf svc ?cmd w")
  from assms cs have w': "w' = w1"
    by (cases r0) (auto simp: downloadFile_def split: option.splits sum.splits)
  from client_send_journal [OF cs] w' have j: "journal w' = journal w @ [(Send ?cmd, thrown_of r0)]"
    by simp
  then show "journal w' = journal w @ issued w w'" by (simp add: issued_append)
  show "single_request (Send ?cmd) ''Download failed: '' (thrown_of r) (issued w w')"
  proof (rule single_requestI)
    show "issued w w' = [(Send ?cmd, thrown_of r0)]" using j by (rule issued_append)
    fix t assume "thrown_of r0 = Some t"
    then have "r0 = Inl t" by (cases r0) simp_all
    with assms cs show "thrown_of r = Some (Error (''Download failed: '' @ message_of t))"
      by (auto simp: downloadFile_def)
  qed
qed

lemma generatePresignedUrl_trace:
  assumes "generatePresignedUrl pf svc k expiresIn w = (r, w')"
  shows "journal w' = journal w @ issued w w'"
    and "single_request (Sign (GetObjectCommand (svc_bucketName svc) k) expiresIn)
           ''Generate URL failed: '' (thrown_of r) (issued w w')"
proof -
  let ?cmd = "GetObjectCommand (svc_bucketName svc) k"
  obtain r0 w1 where cs: "client_sign pf svc ?cmd expiresIn w = (r0, w1)"
    by (cases "client_sign pf svc ?cmd expiresIn w")
  from assms cs have w': "w' = w1" by (cases r0) (simp_all add: generatePresignedUrl_def)
  from client_sign_journal [OF cs] w'
  have j: "journal w' = journal w @ [(Sign ?cmd expiresIn, thrown_of r0)]" by simp
  then show "journal w' = journal w @ issued w w'" by (simp add: issued_append)
  show "single_request (Sign ?cmd expiresIn) ''Generate URL failed: '' (thrown_of r) (issued w w')"
  proof (rule single_requestI)
    show "issued w w' = [(Sign ?cmd expiresIn, thrown_of r0)]" using j by (rule issued_append)
    fix t assume "thrown_of r0 = Some t"
    then have "r0 = Inl t" by (cases r0) simp_all
    with assms cs show "thrown_of r = Some (Error (''Generate URL failed: '' @ message_of t))"
      by (auto simp: generatePresignedUrl_def)
  qed
qed

lemma getFileUrl_trace:
  assumes "getFileUrl pf svc k w = (r, w')"
  shows "journal w' = journal w @ issued w w'"
    and "single_request (Sign (GetObjectCommand (svc_bucketName svc) k) 3600)
           ''Get file URL failed: '' (thrown_of r) (issued w w')"
proof -
  let ?cmd = "GetObjectCommand (svc_bucketName svc) k"
  obtain r0 w1 where cs: "client_sign pf svc ?cmd 3600 w = (r0, w1)"
    by (cases "client_sign pf svc ?cmd 3600 w")
  from assms cs have w': "w' = w1" by (cases r0) (simp_all add: getFileUrl_def)
  from client_sign_journal [OF cs] w'
  have j: "journal w' = journal w @ [(Sign ?cmd 3600, thrown_of r0)]" by simp
  then show "journal w' = journal w @ issued w w'" by (simp add: issued_append)
  show "single_request (Sign ?cmd 3600) ''Get file URL failed: '' (thrown_of r) (issued w w')"
  proof (rule single_requestI)
    show "issued w w' = [(Sign ?cmd 3600, thrown_of r0)]" using j by (rule issued_append)
    fix t assume "thrown_of r0 = Some t"
    then have "r0 = Inl t" by (cases r0) simp_all
    with assms cs show "thrown_of r = Some (Error (''Get file URL failed: '' @ message_of t))"
      by (auto simp: getFileUrl_def)
  qed
qed

lemma only_last_throws_single: "only_last_throws [e]"
  by (simp add: only_last_throws_def)

lemma only_last_throws_Cons:
  "snd e = None \<Longrightarrow> only_last_throws new \<Longrightarrow> only_last_throws (e # new)"
  by (cases new) (simp_all add: only_last_throws_def)


lemma single_request_orderly:
  assumes "single_request rq pfx res new" and "Bucket (command_of rq) = b"
  shows "orderly b pfx res new"
proof -
  from assms(1) obtain out where new: "new = [(rq, out)]"
    and out: "case out of Some t \<Rightarrow> res = Some (Error (pfx @ message_of t)) | None \<Rightarrow> True"
    by (auto simp: single_request_def)
  show ?thesis
    unfolding orderly_def new using out assms(2)
    by (cases out) (simp_all add: only_last_throws_single)
qed

lemma renameFile_trace:
  assumes "renameFile pf svc oldKey newName w = (r, w')"
  shows "journal w' = journal w @ issued w w'"
    and "(\<exists>t. issued w w' = [(copy_request svc oldKey newName, Some t)]
              \<and> r = Inl (Error (''Rename failed: '' @ message_of t)))
         \<or> (\<exists>t. issued w w' = [(copy_request svc oldKey newName, None),
                                (delete_request svc oldKey, Some t)]
              \<and> r = Inl (Error (''Rename failed: Delete failed: '' @ message_of t)))
         \<or> (issued w w' = [(copy_request svc oldKey newName, None),
                           (delete_request svc oldKey, None)]
              \<and> r = Inr ())"
proof -
  let ?copy = "CopyObjectCommand (svc_bucketName svc) (svc_bucketName svc @ ''/'' @ oldKey)
                 (rename_newKey oldKey newName)"
  obtain r0 w1 where cs: "client_send pf svc ?copy w = (r0, w1)"
    by (cases "client_send pf svc ?copy w")
  note j1 = client_send_journal [OF cs]
  have both: "journal w' = journal w @ issued w w' \<and>
     ((\<exists>t. issued w w' = [(copy_request svc oldKey newName, Some t)]
              \<and> r = Inl (Error (''Rename failed: '' @ message_of t)))
         \<or> (\<exists>t. issued w w' = [(copy_request svc oldKey newName, None),
                                (delete_request svc oldKey, Some t)]
              \<and> r = Inl (Error (''Rename failed: Delete failed: '' @ message_of t)))
         \<or> (issued w w' = [(copy_request svc oldKey newName, None),
                           (delete_request svc oldKey, None)]
              \<and> r = Inr ()))"
  proof (cases r0)
    case (Inl t)
    with assms cs have "w' = w1" "r = Inl (Error (''Rename failed: '' @ message_of t))"
      by (simp_all add: renameFile_def)
    with j1 Inl show ?thesis by (simp add: issued_def copy_request_def)
  next
    case (Inr response)
    obtain r1 w2 where del: "deleteFile pf svc oldKey w1 = (r1, w2)"
      by (cases "deleteFile pf svc oldKey w1")
    from assms cs Inr del have w': "w' = w2" by (cases r1) (simp_all add: renameFile_def)
    from deleteFile_trace(1) [OF del] j1 Inr w'
    have j: "journal w' = journal w @ (Send ?copy, None) # issued w1 w2" by simp
    then have i: "issued w w' = (Send ?copy, None) # issued w1 w2" by (simp add: issued_def)
    from deleteFile_trace(3) [OF del] show ?thesis
    proof
      assume "issued w1 w2 = [(Send (DeleteObjectCommand (svc_bucketName svc) oldKey), None)]
                \<and> r1 = Inr ()"
      with assms cs Inr del i j show ?thesis
        by (simp add: renameFile_def copy_request_def delete_request_def)
    next
      assume "\<exists>t. issued w1 w2 = [(Send (DeleteObjectCommand (svc_bucketName svc) oldKey), Some t)]
                \<and> r1 = Inl (Error (''Delete failed: '' @ message_of t))"
      with assms cs Inr del i j show ?thesis
        by (auto simp: renameFile_def copy_request_def delete_request_def)
    qed
  qed
  from both show "journal w' = journal w @ issued w w'" by blast
  from both show "(\<exists>t. issued w w' = [(copy_request svc oldKey newName, Some t)]
              \<and> r = Inl (Error (''Rename failed: '' @ message_of t)))
         \<or> (\<exists>t. issued w w' = [(copy_request svc oldKey newName, None),
                                (delete_request svc oldKey, Some t)]
              \<and> r = Inl (Error (''Rename failed: Delete failed: '' @ message_of t)))
         \<or> (issued w w' = [(copy_request svc oldKey newName, None),
                           (delete_request svc oldKey, None)]
              \<and> r = Inr ())" by blast
qed

lemma downloadEach_trace:
  "downloadEach pf svc folderKey objs acc w = (r, w') \<Longrightarrow>
     \<exists>new. journal w' = journal w @ new
       \<and> (\<forall>e \<in> set new. Bucket (command_of (fst e)) = svc_bucketName svc)
       \<and> only_last_throws new
       \<and> (\<forall>rq t. new \<noteq> [] \<and> last new = (rq, Some t) \<longrightarrow> r = Inl t)"
proof (induction objs arbitrary: acc w)
  case Nil
  then show ?case by (simp add: only_last_throws_def)
next
  case (Cons ob objs)
  let ?goal = ?case
  have skip: ?goal if "downloadEach pf svc folderKey objs acc w = (r, w')"
    using Cons.IH [OF that] .
  show ?goal
  proof (cases "Key ob")
    case None
    with Cons.prems show ?thesis by (intro skip) simp
  next
    case (Some k)
    show ?thesis
    proof (cases "k \<noteq> [] \<and> \<not> endsWith k ''/''")
      case False
      with Some Cons.prems show ?thesis by (intro skip) auto
    next
      case True
      let ?get = "GetObjectCommand (svc_bucketName svc) k"
      obtain r0 w1 where cs: "client_send pf svc ?get w = (r0, w1)"
        by (cases "client_send pf svc ?get w")
      note j1 = client_send_journal [OF cs]
      have stop: ?goal if "w' = w1" and "\<And>t. r0 = Inl t \<Longrightarrow> r = Inl t"
      proof (intro exI [of _ "[(Send ?get, thrown_of r0)]"] conjI)
        show "journal w' = journal w @ [(Send ?get, thrown_of r0)]" using j1 that(1) by simp
        show "\<forall>e \<in> set [(Send ?get, thrown_of r0)]. Bucket (command_of (fst e)) = svc_bucketName svc"
          by simp
        show "only_last_throws [(Send ?get, thrown_of r0)]" by (rule only_last_throws_single)
        show "\<forall>rq t. [(Send ?get, thrown_of r0)] \<noteq> [] \<and> last [(Send ?get, thrown_of r0)] = (rq, Some t)
                \<longrightarrow> r = Inl t"
          using that(2) by (cases r0) auto
      qed
      have continue: ?goal
        if rec: "downloadEach pf svc folderKey objs acc' w1 = (r, w')" and ok: "thrown_of r0 = None"
        for acc'
      proof -
        from Cons.IH [OF rec] obtain new where new:
          "journal w' = journal w1 @ new"
          "\<forall>e \<in> set new. Bucket (command_of (fst e)) = svc_bucketName svc"
          "only_last_throws new"
          "\<forall>rq t. new \<noteq> [] \<and> last new = (rq, Some t) \<longrightarrow> r = Inl t"
          by blast
        show ?thesis
        proof (intro exI [of _ "(Send ?get, None) # new"] conjI)
          show "journal w' = journal w @ (Send ?get, None) # new" using new(1) j1 ok by simp
          show "\<forall>e \<in> set ((Send ?get, None) # new). Bucket (command_of (fst e)) = svc_bucketName svc"
            using new(2) by simp
          show "only_last_throws ((Send ?get, None) # new)"
            using new(3) by (intro only_last_throws_Cons) simp_all
          show "\<forall>rq t. (Send ?get, None) # new \<noteq> [] \<and> last ((Send ?get, None) # new) = (rq, Some t)
                  \<longrightarrow> r = Inl t"
            using new(4) by (cases "new = []") auto
        qed
      qed
      show ?thesis
      proof (cases r0)
        case (Inl t)
        with Cons.prems Some True cs show ?thesis by (intro stop) auto
      next
        case (Inr fileResponse)
        show ?thesis
        proof (cases "Body fileResponse")
          case None
          with Cons.prems Some True cs Inr
          have "downloadEach pf svc folderKey objs acc w1 = (r, w')" by simp
          from continue [OF this] Inr show ?thesis by simp
        next
          case (Some body)
          show ?thesis
          proof (cases body)
            case (Inl e)
            with Cons.prems \<open>Key ob = Some k\<close> True cs Inr Some show ?thesis
              by (intro stop) auto
          next
            case (Inr content)
            with Cons.prems \<open>Key ob = Some k\<close> True cs \<open>r0 = Inr fileResponse\<close> Some
            have "downloadEach pf svc folderKey objs
                    (acc @ [(remove_first k folderKey, content)]) w1 = (r, w')" by simp
            from continue [OF this] \<open>r0 = Inr fileResponse\<close> show ?thesis by simp
          qed
        qed
      qed
    qed
  qed
qed

lemma downloadFolderContents_trace:
  assumes "downloadFolderContents pf svc folderKey w = (r, w')"
  shows "journal w' = journal w @ issued w w'"
    and "orderly (svc_bucketName svc) ''Download folder failed: '' (thrown_of r) (issued w w')"
proof -
  let ?list = "ListObjectsV2Command (svc_bucketName svc) (Some folderKey) None None"
  obtain r0 w1 where cs: "client_send pf svc ?list w = (r0, w1)"
    by (cases "client_send pf svc ?list w")
  note j1 = client_send_journal [OF cs]
  have both: "journal w' = journal w @ issued w w' \<and>
      orderly (svc_bucketName svc) ''Download folder failed: '' (thrown_of r) (issued w w')"
  proof (cases r0)
    case (Inl t)
    with assms cs have "w' = w1" "r = Inl (Error (''Download folder failed: '' @ message_of t))"
      by (simp_all add: downloadFolderContents_def)
    with j1 Inl show ?thesis
      by (simp add: issued_def orderly_def only_last_throws_single)
  next
    case (Inr response)
    let ?loop = "case Contents response of None \<Rightarrow> (Inr [], w1)
                 | Some objs \<Rightarrow> downloadEach pf svc folderKey objs [] w1"
    obtain r1 w2 where loop: "?loop = (r1, w2)" by (cases ?loop)
    have "\<exists>new. journal w2 = journal w1 @ new
       \<and> (\<forall>e \<in> set new. Bucket (command_of (fst e)) = svc_bucketName svc)
       \<and> only_last_throws new
       \<and> (\<forall>rq t. new \<noteq> [] \<and> last new = (rq, Some t) \<longrightarrow> r1 = Inl t)"
    proof (cases "Contents response")
      case None
      with loop show ?thesis by (simp add: only_last_throws_def)
    next
      case (Some objs)
      with loop have "downloadEach pf svc folderKey objs [] w1 = (r1, w2)" by simp
      then show ?thesis by (rule downloadEach_trace)
    qed
    then obtain new where new:
      "journal w2 = journal w1 @ new"
      "\<forall>e \<in> set new. Bucket (command_of (fst e)) = svc_bucketName svc"
      "only_last_throws new"
      "\<forall>rq t. new \<noteq> [] \<and> last new = (rq, Some t) \<longrightarrow> r1 = Inl t"
      by blast
    from assms cs Inr loop have w': "w' = w2"
      and r: "r = (case r1 of Inl e \<Rightarrow> Inl (Error (''Download folder failed: '' @ message_of e))
                   | Inr fs \<Rightarrow> Inr fs)"
      by (auto simp: downloadFolderContents_def split: sum.splits)
    from new(1) j1 Inr w' have j: "journal w' = journal w @ (Send ?list, None) # new" by simp
    then have i: "issued w w' = (Send ?list, None) # new" by (simp add: issued_def)
    have "orderly (svc_bucketName svc) ''Download folder failed: '' (thrown_of r)
            ((Send ?list, None) # new)"
      unfolding orderly_def
    proof (intro conjI allI impI)
      show "\<forall>e \<in> set ((Send ?list, None) # new). Bucket (command_of (fst e)) = svc_bucketName svc"
        using new(2) by simp
      show "only_last_throws ((Send ?list, None) # new)"
        using new(3) by (intro only_last_throws_Cons) simp_all
      fix rq t
      assume "(Send ?list, None) # new \<noteq> [] \<and> last ((Send ?list, None) # new) = (rq, Some t)"
      then have "new \<noteq> [] \<and> last new = (rq, Some t)" by (cases "new = []") auto
      with new(4) have "r1 = Inl t" by blast
      with r show "thrown_of r = Some (Error (''Download folder failed: '' @ message_of t))"
        by simp
    qed
    with i j show ?thesis by simp
  qed
  from both show "journal w' = journal w @ issued w w'" by blast
  from both show "orderly (svc_bucketName svc) ''Download folder failed: '' (thrown_of r) (issued w w')"
    by blast
qed

section \<open>Every operation of the service\<close>

lemma thrown_of_None: "thrown_of r = None \<longleftrightarrow> (\<exists>v. r = Inr v)"
  by (cases r) simp_all

text \<open>What a run of any operation writes to the journal.\<close>

lemma run_trace:
  assumes "run pf svc op w = (res, w')"
  shows "journal w' = journal w @ issued w w'"
    and "(\<exists>oldKey newName. op = RenameFile oldKey newName \<and>
           ((\<exists>t. issued w w' = [(copy_request svc oldKey newName, Some t)]
                 \<and> res = Some (Error (''Rename failed: '' @ message_of t)))
            \<or> (\<exists>t. issued w w' = [(copy_request svc oldKey newName, None),
                                   (delete_request svc oldKey, Some t)]
                 \<and> res = Some (Error (''Rename failed: Delete failed: '' @ message_of t)))
            \<or> (issued w w' = [(copy_request svc oldKey newName, None),
                              (delete_request svc oldKey, None)]
                 \<and> res = None)))
         \<or> ((\<forall>oldKey newName. op \<noteq> RenameFile oldKey newName)
             \<and> orderly (svc_bucketName svc) (failure_prefix op) res (issued w w'))"
proof -
  let ?b = "svc_bucketName svc"
  have "journal w' = journal w @ issued w w' \<and>
    ((\<exists>oldKey newName. op = RenameFile oldKey newName \<and>
           ((\<exists>t. issued w w' = [(copy_request svc oldKey newName, Some t)]
                 \<and> res = Some (Error (''Rename failed: '' @ message_of t)))
            \<or> (\<exists>t. issued w w' = [(copy_request svc oldKey newName, None),
                                   (delete_request svc oldKey, Some t)]
                 \<and> res = Some (Error (''Rename failed: Delete failed: '' @ message_of t)))
            \<or> (issued w w' = [(copy_request svc oldKey newName, None),
                              (delete_request svc oldKey, None)]
                 \<and> res = None)))
         \<or> ((\<forall>oldKey newName. op \<noteq> RenameFile oldKey newName)
             \<and> orderly ?b (failure_prefix op) res (issued w w')))"
  proof (cases op)
    case TestConnection
    with assms obtain r where r: "testConnection pf svc w = (r, w')" "res = thrown_of r"
      by (cases "testConnection pf svc w") (auto simp: outcome_def)
    from testConnection_trace [OF r(1)] r(2) TestConnection show ?thesis
      by (auto intro: single_request_orderly)
  next
    case (ListFiles prefix)
    with assms obtain r where r: "listFiles pf svc prefix w = (r, w')" "res = thrown_of r"
      by (cases "listFiles pf svc prefix w") (auto simp: outcome_def)
    from listFiles_trace(1,2) [OF r(1)] r(2) ListFiles show ?thesis
      by (auto intro: single_request_orderly simp: list_command_def)
  next
    case (UploadFile fl path)
    with assms obtain r where r: "uploadFile pf svc fl path w = (r, w')" "res = thrown_of r"
      by (cases "uploadFile pf svc fl path w") (auto simp: outcome_def)
    from uploadFile_trace(2) [OF r(1)]
    have "orderly ?b ''Upload failed: '' (thrown_of r) (issued w w')"
    proof
      assume "\<exists>e. arrayBuffer fl = Inl e \<and> issued w w' = []
                \<and> r = Inl (Error (''Upload failed: '' @ message_of e))"
      then show ?thesis by (auto simp: orderly_def only_last_throws_def)
    next
      assume "\<exists>content. arrayBuffer fl = Inr content \<and>
               single_request
                 (Send (PutObjectCommand ?b (upload_key fl path) content
                          (Some (file_type fl)) (Some (file_size fl))))
                 ''Upload failed: '' (thrown_of r) (issued w w')"
      then show ?thesis by (auto intro: single_request_orderly)
    qed
    with uploadFile_trace(1) [OF r(1)] r(2) UploadFile show ?thesis by simp
  next
    case (DeleteFile k)
    with assms obtain r where r: "deleteFile pf svc k w = (r, w')" "res = thrown_of r"
      by (cases "deleteFile pf svc k w") (auto simp: outcome_def)
    from deleteFile_trace(1,2) [OF r(1)] r(2) DeleteFile show ?thesis
      by (auto intro: single_request_orderly)
  next
    case (RenameFile oldKey newName)
    with assms obtain r where r: "renameFile pf svc oldKey newName w = (r, w')" "res = thrown_of r"
      by (cases "renameFile pf svc oldKey newName w") (auto simp: outcome_def)
    from renameFile_trace [OF r(1)] r(2) RenameFile show ?thesis by auto
  next
    case (CreateFolder folderPath)
    with assms obtain r where r: "createFolder pf svc folderPath w = (r, w')" "res = thrown_of r"
      by (cases "createFolder pf svc folderPath w") (auto simp: outcome_def)
    from createFolder_trace [OF r(1)] r(2) CreateFolder show ?thesis
      by (auto intro: single_request_orderly)
  next
    case (DownloadFile k fileName)
    with assms obtain r where r: "downloadFile pf svc k fileName w = (r, w')" "res = thrown_of r"
      by (cases "downloadFile pf svc k fileName w") (auto simp: outcome_def)
    from downloadFile_trace [OF r(1)] r(2) DownloadFile show ?thesis
      by (auto intro: single_request_orderly)
  next
    case (GeneratePresignedUrl k expiresIn)
    with assms obtain r where r: "generatePresignedUrl pf svc k expiresIn w = (r, w')"
        "res = thrown_of r"
      by (cases "generatePresignedUrl pf svc k expiresIn w") (auto simp: outcome_def)
    from generatePresignedUrl_trace [OF r(1)] r(2) GeneratePresignedUrl show ?thesis
      by (auto intro: single_request_orderly)
  next
    case (GetFileUrl k)
    with assms obtain r where r: "getFileUrl pf svc k w = (r, w')" "res = thrown_of r"
      by (cases "getFileUrl pf svc k w") (auto simp: outcome_def)
    from getFileUrl_trace [OF r(1)] r(2) GetFileUrl show ?thesis
      by (auto intro: single_request_orderly)
  next
    case (DownloadFolderContents folderKey)
    with assms obtain r where r: "downloadFolderContents pf svc folderKey w = (r, w')"
        "res = thrown_of r"
      by (cases "downloadFolderContents pf svc folderKey w") (auto simp: outcome_def)
    from downloadFolderContents_trace [OF r(1)] r(2) DownloadFolderContents show ?thesis
      by simp
  qed
  then show "journal w' = journal w @ issued w w'"
    and "(\<exists>oldKey newName. op = RenameFile oldKey newName \<and>
           ((\<exists>t. issued w w' = [(copy_request svc oldKey newName, Some t)]
                 \<and> res = Some (Error (''Rename failed: '' @ message_of t)))
            \<or> (\<exists>t. issued w w' = [(copy_request svc oldKey newName, None),
                                   (delete_request svc oldKey, Some t)]
                 \<and> res = Some (Error (''Rename failed: Delete failed: '' @ message_of t)))
            \<or> (issued w w' = [(copy_request svc oldKey newName, None),
                              (delete_request svc oldKey, None)]
                 \<and> res = None)))
         \<or> ((\<forall>oldKey newName. op \<noteq> RenameFile oldKey newName)
             \<and> orderly (svc_bucketName svc) (failure_prefix op) res (issued w w'))"
    by blast+
qed


text \<open>
  C8: every request a service object issues (a command sent, or a command handed to
  the presigner) names the bucket of the credentials the object was built from; the
  copy of a rename also reads from that bucket.
\<close>

theorem every_request_names_the_bucket:
  assumes "run pf (new_S3Service creds) op w = (res, w')"
  shows "journal w' = journal w @ issued w w'
     \<and> (\<forall>e \<in> set (issued w w'). Bucket (command_of (fst e)) = bucketName creds)
     \<and> (\<forall>oldKey newName. op = RenameFile oldKey newName \<longrightarrow>
          fst (hd (issued w w')) =
            Send (CopyObjectCommand (bucketName creds) (bucketName creds @ ''/'' @ oldKey)
                    (rename_newKey oldKey newName)))"
proof -
  let ?svc = "new_S3Service creds"
  have b: "svc_bucketName ?svc = bucketName creds" by (simp add: new_S3Service_def)
  note tr = run_trace [OF assms]
  from tr(2) have "(\<forall>e \<in> set (issued w w'). Bucket (command_of (fst e)) = bucketName creds)
     \<and> (\<forall>oldKey newName. op = RenameFile oldKey newName \<longrightarrow>
          fst (hd (issued w w')) =
            Send (CopyObjectCommand (bucketName creds) (bucketName creds @ ''/'' @ oldKey)
                    (rename_newKey oldKey newName)))"
  proof
    assume "\<exists>oldKey newName. op = RenameFile oldKey newName \<and>
           ((\<exists>t. issued w w' = [(copy_request ?svc oldKey newName, Some t)]
                 \<and> res = Some (Error (''Rename failed: '' @ message_of t)))
            \<or> (\<exists>t. issued w w' = [(copy_request ?svc oldKey newName, None),
                                   (delete_request ?svc oldKey, Some t)]
                 \<and> res = Some (Error (''Rename failed: Delete failed: '' @ message_of t)))
            \<or> (issued w w' = [(copy_request ?svc oldKey newName, None),
                              (delete_request ?svc oldKey, None)]
                 \<and> res = None))"
    then show ?thesis
      by (auto simp: copy_request_def delete_request_def b)
  next
    assume "(\<forall>oldKey newName. op \<noteq> RenameFile oldKey newName)
             \<and> orderly (svc_bucketName ?svc) (failure_prefix op) res (issued w w')"
    then show ?thesis by (simp add: orderly_def b)
  qed
  with tr(1) show ?thesis by blast
qed

theorem every_request_names_the_bucket_witness:
  "journal (snd (run store_platform (new_S3Service demo_credentials)
                   (RenameFile ''docs/a.txt'' ''c.txt'') (demo_world [])))
     = [(Send (CopyObjectCommand ''demo'' ''demo/docs/a.txt'' ''docs/c.txt''), None),
        (Send (DeleteObjectCommand ''demo'' ''docs/a.txt''), None)]
   \<and> Bucket (CopyObjectCommand ''demo'' ''demo/docs/a.txt'' ''docs/c.txt'')
       = bucketName demo_credentials
   \<and> Bucket (DeleteObjectCommand ''demo'' ''docs/a.txt'') = bucketName demo_credentials"
proof -
  let ?run = "run store_platform (new_S3Service demo_credentials)
                (RenameFile ''docs/a.txt'' ''c.txt'') (demo_world [])"
  let ?copy = "CopyObjectCommand ''demo'' ''demo/docs/a.txt'' ''docs/c.txt''"
  let ?del = "DeleteObjectCommand ''demo'' ''docs/a.txt''"
  have r: "?run = (fst ?run, snd ?run)" by (rule prod.collapse [symmetric])
  have j0: "journal (demo_world []) = []" by (simp add: demo_world_def)
  have i: "issued (demo_world []) (snd ?run) = journal (snd ?run)"
    by (simp only: issued_def j0 list.size drop_0)
  have j: "journal (snd ?run) = [(Send ?copy, None), (Send ?del, None)]" by code_simp
  from every_request_names_the_bucket [OF r]
  have "\<forall>e \<in> set (issued (demo_world []) (snd ?run)).
          Bucket (command_of (fst e)) = bucketName demo_credentials"
    by blast
  then have "\<forall>e \<in> set [(Send ?copy, None :: thrown option), (Send ?del, None)].
          Bucket (command_of (fst e)) = bucketName demo_credentials"
    by (simp only: i j)
  then have "Bucket ?copy = bucketName demo_credentials \<and> Bucket ?del = bucketName demo_credentials"
    by simp
  with j show ?thesis by (simp only:)
qed








section \<open>The handlers of the dashboard\<close>

lemma issued_trans:
  assumes "journal w1 = journal w @ issued w w1" and "journal w2 = journal w1 @ issued w1 w2"
  shows "journal w2 = journal w @ issued w w2" and "issued w w2 = issued w w1 @ issued w1 w2"
proof -
  from assms have j: "journal w2 = journal w @ (issued w w1 @ issued w1 w2)" by simp
  from issued_append [OF j] show "issued w w2 = issued w w1 @ issued w1 w2" .
  with j show "journal w2 = journal w @ issued w w2" by simp
qed

lemma loadFiles_trace:
  assumes "credentials ui = Some creds" and "loadFiles pf path ui w = (ui', w')"
  shows "journal w' = journal w @ issued w w'"
    and "\<exists>out. issued w w' = [(Send (list_command (new_S3Service creds) path), out)]"
proof -
  obtain r w1 where lf: "listFiles pf (new_S3Service creds) path w = (r, w1)"
    by (cases "listFiles pf (new_S3Service creds) path w")
  with assms have "w' = w1" by (cases r) (simp_all add: loadFiles_def)
  with listFiles_trace(1,2) [OF lf]
  show "journal w' = journal w @ issued w w'"
    and "\<exists>out. issued w w' = [(Send (list_command (new_S3Service creds) path), out)]"
    by (auto dest: single_request_shape)
qed

text \<open>
  C7: creating a folder named \<open>N\<close> (not blank) while the dashboard is at path \<open>P\<close>
  issues exactly one request that changes the bucket: the put of an object with empty
  body at key \<open>P + N + "/"\<close>, at \<open>N + "/"\<close> when \<open>P\<close> is empty. The only other
  request is the listing that refreshes the view after the put returned.
\<close>

theorem create_folder_single_put:
  assumes "credentials ui = Some creds" and "trim N \<noteq> []"
    and "handleCreateFolder pf N ui w = (r, ui', w')"
  shows "journal w' = journal w @ issued w w'
     \<and> map fst (filter (\<lambda>e. is_mutation (fst e)) (issued w w'))
         = [Send (PutObjectCommand (bucketName creds)
                    (if currentPath ui \<noteq> [] then currentPath ui @ N @ ''/'' else N @ ''/'')
                    [] None None)]
     \<and> map fst (issued w w')
         = Send (PutObjectCommand (bucketName creds)
                   (if currentPath ui \<noteq> [] then currentPath ui @ N @ ''/'' else N @ ''/'')
                   [] None None)
           # (case r of
                Inr u \<Rightarrow> [Send (list_command (new_S3Service creds) (currentPath ui))]
              | Inl e \<Rightarrow> [])"
proof -
  let ?svc = "new_S3Service creds"
  let ?key = "if currentPath ui \<noteq> [] then currentPath ui @ N @ ''/'' else N @ ''/''"
  let ?put = "Send (PutObjectCommand (bucketName creds) ?key [] None None)"
  let ?list = "Send (list_command ?svc (currentPath ui))"
  have key: "folderPath_of (currentPath ui) N = ?key" by (simp add: folderPath_of_def)
  have b: "svc_bucketName ?svc = bucketName creds" by (simp add: new_S3Service_def)
  have nm: "\<not> is_mutation ?list" by (simp add: list_command_def)
  obtain r0 w1 where cf: "createFolder pf ?svc ?key w = (r0, w1)"
    by (cases "createFolder pf ?svc ?key w")
  from createFolder_trace [OF cf] b obtain out
    where j1: "journal w1 = journal w @ issued w w1" and i1: "issued w w1 = [(?put, out)]"
    by (auto dest: single_request_shape)
  show ?thesis
  proof (cases r0)
    case (Inl e)
    with assms(1,3) cf key have "w' = w1" "r = Inl e"
      by (simp_all add: handleCreateFolder_def)
    with j1 i1 show ?thesis by simp
  next
    case (Inr u)
    with assms(1,3) cf key have lf: "loadFiles pf (currentPath ui) ui w1 = (ui', w')"
      and r: "r = Inr ()"
      by (simp_all add: handleCreateFolder_def)
    from loadFiles_trace [OF assms(1) lf] obtain out'
      where j2: "journal w' = journal w1 @ issued w1 w'" and i2: "issued w1 w' = [(?list, out')]"
      by blast
    from issued_trans [OF j1 j2] i1 i2
    have "journal w' = journal w @ issued w w'" "issued w w' = [(?put, out), (?list, out')]"
      by simp_all
    with r nm show ?thesis by simp
  qed
qed

theorem create_folder_single_put_witness:
  "credentials demo_ui = Some demo_credentials \<and> trim ''reports'' \<noteq> []
   \<and> journal (snd (snd (handleCreateFolder store_platform ''reports'' demo_ui (demo_world []))))
       = [(Send (PutObjectCommand ''demo'' ''docs/reports/'' [] None None), None),
          (Send (ListObjectsV2Command ''demo'' (Some ''docs/'') (Some ''/'') None), None)]
   \<and> map fst (filter (\<lambda>e. is_mutation (fst e))
        (journal (snd (snd (handleCreateFolder store_platform ''reports'' demo_ui (demo_world []))))))
       = [Send (PutObjectCommand ''demo'' ''docs/reports/'' [] None None)]"
proof -
  let ?h = "handleCreateFolder store_platform ''reports'' demo_ui (demo_world [])"
  have c: "credentials demo_ui = Some demo_credentials" by (simp add: demo_ui_def)
  have t: "trim ''reports'' \<noteq> []" by code_simp
  have r: "?h = (fst ?h, fst (snd ?h), snd (snd ?h))" by simp
  have j0: "journal (demo_world []) = []" by (simp add: demo_world_def)
  have i: "issued (demo_world []) (snd (snd ?h)) = journal (snd (snd ?h))"
    by (simp only: issued_def j0 list.size drop_0)
  have k: "(if currentPath demo_ui \<noteq> [] then currentPath demo_ui @ ''reports'' @ ''/''
            else ''reports'' @ ''/'') = ''docs/reports/''"
    by (simp add: demo_ui_def)
  have b: "bucketName demo_credentials = ''demo''" by (simp add: demo_credentials_def)
  have j: "journal (snd (snd ?h))
       = [(Send (PutObjectCommand ''demo'' ''docs/reports/'' [] None None), None),
          (Send (ListObjectsV2Command ''demo'' (Some ''docs/'') (Some ''/'') None), None)]"
    by code_simp
  from create_folder_single_put [OF c t r]
  have "map fst (filter (\<lambda>e. is_mutation (fst e)) (issued (demo_world []) (snd (snd ?h))))
         = [Send (PutObjectCommand (bucketName demo_credentials)
                    (if currentPath demo_ui \<noteq> [] then currentPath demo_ui @ ''reports'' @ ''/''
                     else ''reports'' @ ''/'')
                    [] None None)]"
    by blast
  then have "map fst (filter (\<lambda>e. is_mutation (fst e)) (journal (snd (snd ?h))))
         = [Send (PutObjectCommand ''demo'' ''docs/reports/'' [] None None)]"
    by (simp only: i k b)
  with c t j show ?thesis by (simp only: simp_thms)
qed

lemma uploadEach_append:
  "uploadEach pf svc (xs @ ys) path w =
     (case uploadEach pf svc xs path w of
        (Inl e, w1) \<Rightarrow> (Inl e, w1)
      | (Inr u, w1) \<Rightarrow> uploadEach pf svc ys path w1)"
  by (induction xs arbitrary: w) (auto split: prod.splits sum.splits)

lemma deleteEach_append:
  "deleteEach pf svc (xs @ ys) w =
     (case deleteEach pf svc xs w of
        (Inl e, w1) \<Rightarrow> (Inl e, w1)
      | (Inr u, w1) \<Rightarrow> deleteEach pf svc ys w1)"
  by (induction xs arbitrary: w) (auto split: prod.splits sum.splits)

lemma uploadFile_success_trace:
  assumes "uploadFile pf svc f path w = (Inr u, w1)"
  shows "journal w1 = journal w @ issued w w1"
    and "issued w w1 = [(upload_request svc path f, None)]"
proof -
  show "journal w1 = journal w @ issued w w1" by (rule uploadFile_trace(1) [OF assms])
  from uploadFile_trace(2) [OF assms]
  have "\<exists>content. arrayBuffer f = Inr content \<and>
          issued w w1 = [(Send (PutObjectCommand (svc_bucketName svc) (upload_key f path) content
                                  (Some (file_type f)) (Some (file_size f))), None)]"
    by (auto simp: single_request_def split: option.splits)
  then show "issued w w1 = [(upload_request svc path f, None)]"
    by (auto simp: upload_request_def)
qed

lemma uploadFile_failure_trace:
  assumes "uploadFile pf svc f path w = (Inl e, w1)"
  shows "journal w1 = journal w @ issued w w1"
    and "issued w w1 = [] \<or> (\<exists>t. issued w w1 = [(upload_request svc path f, Some t)])"
proof -
  show "journal w1 = journal w @ issued w w1" by (rule uploadFile_trace(1) [OF assms])
  from uploadFile_trace(2) [OF assms]
  show "issued w w1 = [] \<or> (\<exists>t. issued w w1 = [(upload_request svc path f, Some t)])"
  proof
    assume "\<exists>e'. arrayBuffer f = Inl e' \<and> issued w w1 = []
              \<and> (Inl e :: thrown + unit) = Inl (Error (''Upload failed: '' @ message_of e'))"
    then show ?thesis by blast
  next
    assume "\<exists>content. arrayBuffer f = Inr content \<and>
               single_request
                 (Send (PutObjectCommand (svc_bucketName svc) (upload_key f path) content
                          (Some (file_type f)) (Some (file_size f))))
                 ''Upload failed: '' (thrown_of (Inl e :: thrown + unit)) (issued w w1)"
    then obtain content out where c: "arrayBuffer f = Inr content"
      and i: "issued w w1 = [(Send (PutObjectCommand (svc_bucketName svc) (upload_key f path) content
                                      (Some (file_type f)) (Some (file_size f))), out)]"
      by (auto simp: single_request_def)
    let ?put = "PutObjectCommand (svc_bucketName svc) (upload_key f path) content
                  (Some (file_type f)) (Some (file_size f))"
    obtain r0 w0 where cs: "client_send pf svc ?put w = (r0, w0)"
      by (cases "client_send pf svc ?put w")
    from assms c cs have "\<exists>t. r0 = Inl t" and "w1 = w0"
      by (cases r0; simp add: uploadFile_def)+
    with client_send_journal [OF cs] have "\<exists>t. issued w w1 = [(Send ?put, Some t)]"
      by (auto simp: issued_def)
    with c show ?thesis by (simp add: upload_request_def)
  qed
qed

lemma uploadEach_success_trace:
  "uploadEach pf svc xs path w = (Inr u, w1) \<Longrightarrow>
     journal w1 = journal w @ issued w w1
     \<and> issued w w1 = map (\<lambda>f. (upload_request svc path f, None)) xs"
proof (induction xs arbitrary: w)
  case Nil
  then show ?case by (simp add: issued_def)
next
  case (Cons f xs)
  obtain r0 w0 where uf: "uploadFile pf svc f path w = (r0, w0)"
    by (cases "uploadFile pf svc f path w")
  with Cons.prems obtain u0 where r0: "r0 = Inr u0"
    and rest: "uploadEach pf svc xs path w0 = (Inr u, w1)"
    by (cases r0) simp_all
  note first = uploadFile_success_trace [OF uf [unfolded r0]]
  from Cons.IH [OF rest] have more: "journal w1 = journal w0 @ issued w0 w1"
    "issued w0 w1 = map (\<lambda>f. (upload_request svc path f, None)) xs" by simp_all
  from issued_trans [OF first(1) more(1)] first(2) more(2) show ?case by simp
qed

lemma deleteEach_success_trace:
  "deleteEach pf svc xs w = (Inr u, w1) \<Longrightarrow>
     journal w1 = journal w @ issued w w1
     \<and> issued w w1 = map (\<lambda>f. (delete_request svc (key f), None)) xs"
proof (induction xs arbitrary: w)
  case Nil
  then show ?case by (simp add: issued_def)
next
  case (Cons f xs)
  obtain r0 w0 where df: "deleteFile pf svc (key f) w = (r0, w0)"
    by (cases "deleteFile pf svc (key f) w")
  with Cons.prems obtain u0 where r0: "r0 = Inr u0"
    and rest: "deleteEach pf svc xs w0 = (Inr u, w1)"
    by (cases r0) simp_all
  from deleteFile_trace(1,3) [OF df] r0
  have first: "journal w0 = journal w @ issued w w0"
    "issued w w0 = [(delete_request svc (key f), None)]"
    by (simp_all add: delete_request_def)
  from Cons.IH [OF rest] have more: "journal w1 = journal w0 @ issued w0 w1"
    "issued w0 w1 = map (\<lambda>f. (delete_request svc (key f), None)) xs" by simp_all
  from issued_trans [OF first(1) more(1)] first(2) more(2) show ?case by simp
qed

text \<open>
  C5: the files of one upload and the entries of one delete are handled one after the
  other, in list order. When the call for an item fails after all calls before it
  succeeded, the handler throws that item's error and ends in the state the failed
  call left: the requests issued are those of the items before it, in order, followed
  by the failed item's own (none if its content could not be read), and nothing for
  the items after it.
\<close>

theorem loops_stop_at_first_failure:
  assumes "credentials ui = Some creds" and "svc = new_S3Service creds"
  shows "(\<forall>xs f ys e w1 w2.
            uploadEach pf svc xs path w = (Inr (), w1) \<and> uploadFile pf svc f path w1 = (Inl e, w2)
            \<longrightarrow> handleUpload pf (xs @ f # ys) path ui w = (Inl e, ui, w2)
               \<and> journal w2 = journal w @ issued w w2
               \<and> issued w w2 = map (\<lambda>g. (upload_request svc path g, None)) xs @ issued w1 w2
               \<and> (issued w1 w2 = [] \<or> (\<exists>t. issued w1 w2 = [(upload_request svc path f, Some t)])))
     \<and> (\<forall>xs f ys e w1 w2.
            deleteEach pf svc xs w = (Inr (), w1) \<and> deleteFile pf svc (key f) w1 = (Inl e, w2)
            \<longrightarrow> handleDelete pf (xs @ f # ys) ui w = (Inl e, ui, w2)
               \<and> journal w2 = journal w @ issued w w2
               \<and> (\<exists>t. issued w w2 = map (\<lambda>g. (delete_request svc (key g), None)) xs
                                      @ [(delete_request svc (key f), Some t)]
                      \<and> e = Error (''Delete failed: '' @ message_of t)))"
proof (intro conjI allI impI)
  fix xs f ys e w1 w2
  assume a: "uploadEach pf svc xs path w = (Inr (), w1) \<and> uploadFile pf svc f path w1 = (Inl e, w2)"
  then have "uploadEach pf svc (xs @ f # ys) path w = (Inl e, w2)"
    by (simp add: uploadEach_append)
  with assms show "handleUpload pf (xs @ f # ys) path ui w = (Inl e, ui, w2)"
    by (simp add: handleUpload_def)
  from a uploadEach_success_trace [of pf svc xs path w "()" w1]
  have s: "journal w1 = journal w @ issued w w1"
    "issued w w1 = map (\<lambda>g. (upload_request svc path g, None)) xs" by simp_all
  from a uploadFile_failure_trace [of pf svc f path w1 e w2]
  have t: "journal w2 = journal w1 @ issued w1 w2"
    "issued w1 w2 = [] \<or> (\<exists>t. issued w1 w2 = [(upload_request svc path f, Some t)])"
    by simp_all
  from issued_trans [OF s(1) t(1)] s(2)
  show "journal w2 = journal w @ issued w w2"
    and "issued w w2 = map (\<lambda>g. (upload_request svc path g, None)) xs @ issued w1 w2"
    by simp_all
  from t(2) show "issued w1 w2 = [] \<or> (\<exists>t. issued w1 w2 = [(upload_request svc path f, Some t)])" .
next
  fix xs ys :: "FileItem list" and f :: FileItem and e w1 w2
  assume a: "deleteEach pf svc xs w = (Inr (), w1) \<and> deleteFile pf svc (key f) w1 = (Inl e, w2)"
  then have "deleteEach pf svc (xs @ f # ys) w = (Inl e, w2)"
    by (simp add: deleteEach_append)
  with assms show "handleDelete pf (xs @ f # ys) ui w = (Inl e, ui, w2)"
    by (simp add: handleDelete_def)
  from a deleteEach_success_trace [of pf svc xs w "()" w1]
  have s: "journal w1 = journal w @ issued w w1"
    "issued w w1 = map (\<lambda>g. (delete_request svc (key g), None)) xs" by simp_all
  from a deleteFile_trace(1,3) [of pf svc "key f" w1 "Inl e" w2]
  obtain t where t: "journal w2 = journal w1 @ issued w1 w2"
    "issued w1 w2 = [(delete_request svc (key f), Some t)]"
    "e = Error (''Delete failed: '' @ message_of t)"
    by (auto simp: delete_request_def)
  from issued_trans [OF s(1) t(1)] s(2) t(2,3)
  show "journal w2 = journal w @ issued w w2"
    and "\<exists>t. issued w w2 = map (\<lambda>g. (delete_request svc (key g), None)) xs
                                      @ [(delete_request svc (key f), Some t)]
                      \<and> e = Error (''Delete failed: '' @ message_of t)"
    by simp_all
qed

theorem loops_stop_at_first_failure_witness:
  "handleUpload store_platform
      [demo_upload ''x.txt'', demo_upload ''y.txt'', demo_upload ''z.txt''] ''docs/'' demo_ui
      (demo_world [None, Some (Error ''Slow Down'')])
     = (Inl (Error ''Upload failed: Slow Down''), demo_ui,
        snd (uploadFile store_platform (new_S3Service demo_credentials) (demo_upload ''y.txt'') ''docs/''
               (snd (uploadEach store_platform (new_S3Service demo_credentials)
                       [demo_upload ''x.txt''] ''docs/''
                       (demo_world [None, Some (Error ''Slow Down'')])))))
   \<and> handleDelete store_platform [demo_listing ! 1, demo_listing ! 0] demo_ui
        (demo_world [Some (Error ''Access Denied'')])
     = (Inl (Error ''Delete failed: Access Denied''), demo_ui,
        snd (deleteFile store_platform (new_S3Service demo_credentials) (key (demo_listing ! 1))
               (demo_world [Some (Error ''Access Denied'')])))
   \<and> journal (snd (deleteFile store_platform (new_S3Service demo_credentials)
                      (key (demo_listing ! 1)) (demo_world [Some (Error ''Access Denied'')])))
     = [(Send (DeleteObjectCommand ''demo'' ''docs/a.txt''), Some (Error ''Access Denied''))]"
proof -
  let ?svc = "new_S3Service demo_credentials"
  let ?wu = "demo_world [None, Some (Error ''Slow Down'')]"
  let ?wd = "demo_world [Some (Error ''Access Denied'')]"
  let ?x = "demo_upload ''x.txt''" and ?y = "demo_upload ''y.txt''" and ?z = "demo_upload ''z.txt''"
  let ?w1 = "snd (uploadEach store_platform ?svc [?x] ''docs/'' ?wu)"
  let ?w2 = "snd (uploadFile store_platform ?svc ?y ''docs/'' ?w1)"
  let ?w3 = "snd (deleteFile store_platform ?svc (key (demo_listing ! 1)) ?wd)"
  have c: "credentials demo_ui = Some demo_credentials" by (simp add: demo_ui_def)
  have u1: "uploadEach store_platform ?svc [?x] ''docs/'' ?wu = (Inr (), ?w1)"
    by code_simp
  have u2: "uploadFile store_platform ?svc ?y ''docs/'' ?w1
      = (Inl (Error ''Upload failed: Slow Down''), ?w2)"
    by code_simp
  have d1: "deleteEach store_platform ?svc [] ?wd = (Inr (), ?wd)" by simp
  have d2: "deleteFile store_platform ?svc (key (demo_listing ! 1)) ?wd
      = (Inl (Error ''Delete failed: Access Denied''), ?w3)"
    by code_simp
  have j: "journal ?w3
      = [(Send (DeleteObjectCommand ''demo'' ''docs/a.txt''), Some (Error ''Access Denied''))]"
    by code_simp
  note up = loops_stop_at_first_failure [OF c refl, where pf = store_platform
      and path = "''docs/''" and w = ?wu]
  note dl = loops_stop_at_first_failure [OF c refl, where pf = store_platform
      and path = "''docs/''" and w = ?wd]
  from up u1 u2
  have "handleUpload store_platform ([?x] @ ?y # [?z]) ''docs/'' demo_ui ?wu
      = (Inl (Error ''Upload failed: Slow Down''), demo_ui, ?w2)"
    by blast
  then have a: "handleUpload store_platform [?x, ?y, ?z] ''docs/'' demo_ui ?wu
      = (Inl (Error ''Upload failed: Slow Down''), demo_ui, ?w2)"
    by (simp only: append.simps)
  from dl d1 d2
  have "handleDelete store_platform ([] @ demo_listing ! 1 # [demo_listing ! 0]) demo_ui ?wd
      = (Inl (Error ''Delete failed: Access Denied''), demo_ui, ?w3)"
    by blast
  then have b: "handleDelete store_platform [demo_listing ! 1, demo_listing ! 0] demo_ui ?wd
      = (Inl (Error ''Delete failed: Access Denied''), demo_ui, ?w3)"
    by (simp only: append.simps)
  from a b j show ?thesis by (simp only: simp_thms)
qed

section \<open>Rename on the reference store\<close>






text \<open>
  Renaming an object to the name it has: the copy is refused, the rename throws, and
  the object stays where it was.
\<close>

lemma rename_to_same_name_is_refused:
  "rename_newKey ''docs/a.txt'' ''a.txt'' = ''docs/a.txt''
   \<and> fst (renameFile store_platform demo_service ''docs/a.txt'' ''a.txt'' (demo_world []))
       = Inl (Error (''Rename failed: '' @ self_copy_message))
   \<and> map fst (journal (snd (renameFile store_platform demo_service ''docs/a.txt'' ''a.txt''
                              (demo_world []))))
       = [Send (CopyObjectCommand ''demo'' ''demo/docs/a.txt'' ''docs/a.txt'')]
   \<and> object_at (snd (renameFile store_platform demo_service ''docs/a.txt'' ''a.txt'' (demo_world [])))
        ''demo'' ''docs/a.txt'' = Some ''hello''"
  by code_simp

end
